theory Spec2Isabelle
  imports Main "HOL-Library.AList"
begin

section \<open>The store of RedisDatabase\<close>

text \<open>
  \<^verbatim>\<open>RedisDatabase\<close> (include/RedisDatabase.h) owns four \<^verbatim>\<open>std::unordered_map\<close>s.
  Each is modelled as an association list: \<open>map_of\<close> is \<^verbatim>\<open>find\<close>,
  \<open>AList.update\<close> is \<^verbatim>\<open>m[key] = v\<close>, \<open>AList.delete\<close> is \<^verbatim>\<open>erase(key)\<close>,
  and the order of the list is the iteration order of the container, which C++ leaves
  unspecified: theorems hold for every order.

  A \<^verbatim>\<open>steady_clock::time_point\<close> is the integer count of clock ticks (nanoseconds);
  every reading of \<^verbatim>\<open>steady_clock::now()\<close> is an argument of the operation that
  reads it. The mutex is not modelled: operations run one after the other.
\<close>

type_synonym time_point = int

type_synonym hash = "(string \<times> string) list"

record RedisDatabase =
  kv_store :: "(string \<times> string) list"
  list_store :: "(string \<times> string list) list"
  hash_store :: "(string \<times> hash) list"
  expiry_map :: "(string \<times> time_point) list"

definition empty_db :: RedisDatabase where
  "empty_db = \<lparr>kv_store = [], list_store = [], hash_store = [], expiry_map = []\<rparr>"

text \<open>\<^verbatim>\<open>m.find(key) != m.end()\<close>\<close>

definition contains :: "(string \<times> 'v) list \<Rightarrow> string \<Rightarrow> bool" where
  "contains m key = (case map_of m key of None \<Rightarrow> False | Some _ \<Rightarrow> True)"

text \<open>\<^verbatim>\<open>std::chrono::seconds(n)\<close> converted to the clock's duration (nanoseconds).
  The sum with a clock reading stays far below \<open>2^63\<close> for a 32-bit \<open>n\<close>.\<close>

definition seconds :: "int \<Rightarrow> int" where
  "seconds n = n * 1000000000"

subsection \<open>Common commands and key/value operations\<close>

definition flushAll :: "RedisDatabase \<Rightarrow> RedisDatabase \<times> bool" where
  "flushAll db = (db\<lparr>kv_store := [], list_store := [], hash_store := []\<rparr>, True)"

definition set_db :: "RedisDatabase \<Rightarrow> string \<Rightarrow> string \<Rightarrow> RedisDatabase" where
  "set_db db key v = db\<lparr>kv_store := AList.update key v (kv_store db)\<rparr>"

text \<open>The body of the loop of \<^verbatim>\<open>purgeExpired\<close> for an expired entry: the key is erased
  from the three stores and its entry from the expiry map.\<close>

definition erase_expired :: "string \<Rightarrow> RedisDatabase \<Rightarrow> RedisDatabase" where
  "erase_expired k db =
     db\<lparr>kv_store := AList.delete k (kv_store db),
        list_store := AList.delete k (list_store db),
        hash_store := AList.delete k (hash_store db),
        expiry_map := AList.delete k (expiry_map db)\<rparr>"

text \<open>The loop of \<^verbatim>\<open>purgeExpired\<close> over the entries of the expiry map still to visit.\<close>

fun purge_loop :: "time_point \<Rightarrow> (string \<times> time_point) list \<Rightarrow> RedisDatabase \<Rightarrow> RedisDatabase" where
  "purge_loop now [] db = db"
| "purge_loop now ((k, deadline) # rest) db =
     (if now > deadline then purge_loop now rest (erase_expired k db)
      else purge_loop now rest db)"

definition purgeExpired :: "RedisDatabase \<Rightarrow> time_point \<Rightarrow> RedisDatabase" where
  "purgeExpired db now = purge_loop now (expiry_map db) db"

text \<open>An out-parameter \<^verbatim>\<open>std::string& value\<close> is an argument and a component of the
  result: it keeps the caller's string when the operation fails.\<close>

definition get :: "RedisDatabase \<Rightarrow> time_point \<Rightarrow> string \<Rightarrow> string \<Rightarrow> RedisDatabase \<times> bool \<times> string" where
  "get db now key v =
     (let db1 = purgeExpired db now in
      case map_of (kv_store db1) key of
        Some x \<Rightarrow> (db1, True, x)
      | None \<Rightarrow> (db1, False, v))"

definition keys :: "RedisDatabase \<Rightarrow> time_point \<Rightarrow> RedisDatabase \<times> string list" where
  "keys db now =
     (let db1 = purgeExpired db now in
      (db1, map fst (kv_store db1) @ map fst (list_store db1) @ map fst (hash_store db1)))"

definition type :: "RedisDatabase \<Rightarrow> time_point \<Rightarrow> string \<Rightarrow> RedisDatabase \<times> string" where
  "type db now key =
     (let db1 = purgeExpired db now in
      (db1, if contains (kv_store db1) key then ''string''
            else if contains (list_store db1) key then ''list''
            else if contains (hash_store db1) key then ''hash''
            else ''none''))"

text \<open>\<^verbatim>\<open>del\<close> computes \<^verbatim>\<open>erased\<close> and returns the constant \<^verbatim>\<open>false\<close>; it does not
  touch the expiry map.\<close>

definition del :: "RedisDatabase \<Rightarrow> time_point \<Rightarrow> string \<Rightarrow> RedisDatabase \<times> bool" where
  "del db now key =
     (let db1 = purgeExpired db now;
          erased = False;
          erased = (erased \<or> contains (kv_store db1) key);
          db2 = db1\<lparr>kv_store := AList.delete key (kv_store db1)\<rparr>;
          erased = (erased \<or> contains (list_store db2) key);
          db3 = db2\<lparr>list_store := AList.delete key (list_store db2)\<rparr>;
          erased = (erased \<or> contains (hash_store db3) key);
          db4 = db3\<lparr>hash_store := AList.delete key (hash_store db3)\<rparr>
      in (db4, False))"

text \<open>\<^verbatim>\<open>expire\<close> reads the clock twice: \<open>now\<close> inside \<^verbatim>\<open>purgeExpired\<close> and \<open>now'\<close>
  for the deadline.\<close>

definition expire :: "RedisDatabase \<Rightarrow> time_point \<Rightarrow> time_point \<Rightarrow> string \<Rightarrow> int \<Rightarrow> RedisDatabase \<times> bool" where
  "expire db now now' key secs =
     (let db1 = purgeExpired db now;
          exists = (contains (kv_store db1) key \<or> contains (list_store db1) key
                    \<or> contains (hash_store db1) key)
      in if \<not> exists then (db1, False)
         else (db1\<lparr>expiry_map := AList.update key (now' + seconds secs) (expiry_map db1)\<rparr>, True))"

text \<open>The four moves of \<^verbatim>\<open>rename\<close>. With \<open>oldKey = newKey\<close> the assignment
  \<^verbatim>\<open>m[newKey] = it->second\<close> changes nothing and \<^verbatim>\<open>erase(it)\<close> removes the entry.\<close>

definition move_key :: "string \<Rightarrow> string \<Rightarrow> (string \<times> 'v) list \<Rightarrow> (string \<times> 'v) list" where
  "move_key oldKey newKey m =
     (case map_of m oldKey of
        None \<Rightarrow> m
      | Some x \<Rightarrow> AList.delete oldKey (AList.update newKey x m))"

definition rename :: "RedisDatabase \<Rightarrow> time_point \<Rightarrow> string \<Rightarrow> string \<Rightarrow> RedisDatabase \<times> bool" where
  "rename db now oldKey newKey =
     (let db1 = purgeExpired db now;
          found = False;
          found = (found \<or> contains (kv_store db1) oldKey);
          db2 = db1\<lparr>kv_store := move_key oldKey newKey (kv_store db1)\<rparr>;
          found = (found \<or> contains (list_store db2) oldKey);
          db3 = db2\<lparr>list_store := move_key oldKey newKey (list_store db2)\<rparr>;
          found = (found \<or> contains (hash_store db3) oldKey);
          db4 = db3\<lparr>hash_store := move_key oldKey newKey (hash_store db3)\<rparr>;
          db5 = db4\<lparr>expiry_map := move_key oldKey newKey (expiry_map db4)\<rparr>
      in (db5, found))"

subsection \<open>List operations\<close>

text \<open>\<^verbatim>\<open>m[key]\<close> read as a value: the mapped container, a new empty one when the key
  is absent.\<close>

definition at_default :: "(string \<times> 'a list) list \<Rightarrow> string \<Rightarrow> 'a list" where
  "at_default m key = (case map_of m key of None \<Rightarrow> [] | Some xs \<Rightarrow> xs)"

definition lget :: "RedisDatabase \<Rightarrow> string \<Rightarrow> string list" where
  "lget db key = (case map_of (list_store db) key of Some xs \<Rightarrow> xs | None \<Rightarrow> [])"

definition llen :: "RedisDatabase \<Rightarrow> string \<Rightarrow> int" where
  "llen db key = (case map_of (list_store db) key of Some xs \<Rightarrow> int (length xs) | None \<Rightarrow> 0)"

definition lpush :: "RedisDatabase \<Rightarrow> string \<Rightarrow> string \<Rightarrow> RedisDatabase" where
  "lpush db key v =
     db\<lparr>list_store := AList.update key (v # at_default (list_store db) key) (list_store db)\<rparr>"

definition rpush :: "RedisDatabase \<Rightarrow> string \<Rightarrow> string \<Rightarrow> RedisDatabase" where
  "rpush db key v =
     db\<lparr>list_store := AList.update key (at_default (list_store db) key @ [v]) (list_store db)\<rparr>"

definition lpop :: "RedisDatabase \<Rightarrow> string \<Rightarrow> string \<Rightarrow> RedisDatabase \<times> bool \<times> string" where
  "lpop db key v =
     (case map_of (list_store db) key of
        Some (x # xs) \<Rightarrow> (db\<lparr>list_store := AList.update key xs (list_store db)\<rparr>, True, x)
      | _ \<Rightarrow> (db, False, v))"

definition rpop :: "RedisDatabase \<Rightarrow> string \<Rightarrow> string \<Rightarrow> RedisDatabase \<times> bool \<times> string" where
  "rpop db key v =
     (case map_of (list_store db) key of
        Some (x # xs) \<Rightarrow>
          (db\<lparr>list_store := AList.update key (butlast (x # xs)) (list_store db)\<rparr>, True, last (x # xs))
      | _ \<Rightarrow> (db, False, v))"

text \<open>The negation of a 32-bit \<^verbatim>\<open>int\<close>, as two's complement computes it: the least
  value is its own negation (the overflow is undefined in ISO C++).\<close>

definition neg_int32 :: "int \<Rightarrow> int" where
  "neg_int32 c = (if c = - 2147483648 then - 2147483648 else - c)"

text \<open>The loop of \<^verbatim>\<open>lrem\<close> for \<open>count > 0\<close>, on the elements from \<^verbatim>\<open>iter\<close> to the end;
  it returns them as the loop leaves them, and \<^verbatim>\<open>removed\<close>.\<close>

fun lrem_head :: "string \<Rightarrow> int \<Rightarrow> int \<Rightarrow> string list \<Rightarrow> string list \<times> int" where
  "lrem_head v count removed [] = ([], removed)"
| "lrem_head v count removed (x # xs) =
     (if removed < count then
        (if x = v then lrem_head v count (removed + 1) xs
         else (let (ys, r) = lrem_head v count removed xs in (x # ys, r)))
      else (x # xs, removed))"

text \<open>The loop of \<^verbatim>\<open>lrem\<close> for \<open>count < 0\<close>. \<open>p\<close> is the index of \<^verbatim>\<open>riter.base()\<close>, so
  \<^verbatim>\<open>*riter\<close> is \<open>lst ! (p - 1)\<close> and \<^verbatim>\<open>riter != lst.rend()\<close> is \<open>p \<noteq> 0\<close>; \<open>limit\<close> is
  the value of \<^verbatim>\<open>-count\<close>. Erasing at \<open>p - 1\<close> leaves \<^verbatim>\<open>fwdIter\<close>, the new base, at
  \<open>p - 1\<close>.\<close>

function lrem_tail :: "string \<Rightarrow> int \<Rightarrow> int \<Rightarrow> nat \<Rightarrow> string list \<Rightarrow> string list \<times> int" where
  "lrem_tail v limit removed p lst =
     (if p \<noteq> 0 \<and> removed < limit then
        (if lst ! (p - 1) = v
         then lrem_tail v limit (removed + 1) (p - 1) (take (p - 1) lst @ drop p lst)
         else lrem_tail v limit removed (p - 1) lst)
      else (lst, removed))"
  by pat_completeness auto
termination
  by (relation "measure (\<lambda>(v, limit, removed, p, lst). p)") auto

definition lrem :: "RedisDatabase \<Rightarrow> string \<Rightarrow> int \<Rightarrow> string \<Rightarrow> RedisDatabase \<times> int" where
  "lrem db key count v =
     (case map_of (list_store db) key of
        None \<Rightarrow> (db, 0)
      | Some lst \<Rightarrow>
          (let (lst', removed) =
             (if count = 0 then
                (filter (\<lambda>x. x \<noteq> v) lst,
                 int (length lst) - int (length (filter (\<lambda>x. x \<noteq> v) lst)))
              else if count > 0 then lrem_head v count 0 lst
              else lrem_tail v (neg_int32 count) 0 (length lst) lst)
           in (db\<lparr>list_store := AList.update key lst' (list_store db)\<rparr>, removed)))"

text \<open>The index normalisation shared by \<^verbatim>\<open>lindex\<close> and \<^verbatim>\<open>lset\<close>: \<open>None\<close> when the index
  is out of range.\<close>

definition norm_index :: "'a list \<Rightarrow> int \<Rightarrow> nat option" where
  "norm_index lst index =
     (let index = (if index < 0 then int (length lst) + index else index)
      in if index < 0 \<or> index \<ge> int (length lst) then None else Some (nat index))"

definition lindex :: "RedisDatabase \<Rightarrow> string \<Rightarrow> int \<Rightarrow> string \<Rightarrow> bool \<times> string" where
  "lindex db key index v =
     (case map_of (list_store db) key of
        None \<Rightarrow> (False, v)
      | Some lst \<Rightarrow>
          (case norm_index lst index of None \<Rightarrow> (False, v) | Some i \<Rightarrow> (True, lst ! i)))"

definition lset :: "RedisDatabase \<Rightarrow> string \<Rightarrow> int \<Rightarrow> string \<Rightarrow> RedisDatabase \<times> bool" where
  "lset db key index v =
     (case map_of (list_store db) key of
        None \<Rightarrow> (db, False)
      | Some lst \<Rightarrow>
          (case norm_index lst index of
             None \<Rightarrow> (db, False)
           | Some i \<Rightarrow> (db\<lparr>list_store := AList.update key (lst[i := v]) (list_store db)\<rparr>, True)))"

subsection \<open>Hash operations\<close>

definition hset :: "RedisDatabase \<Rightarrow> string \<Rightarrow> string \<Rightarrow> string \<Rightarrow> RedisDatabase \<times> bool" where
  "hset db key field v =
     (db\<lparr>hash_store :=
          AList.update key (AList.update field v (at_default (hash_store db) key)) (hash_store db)\<rparr>,
      True)"

definition hget :: "RedisDatabase \<Rightarrow> string \<Rightarrow> string \<Rightarrow> string \<Rightarrow> bool \<times> string" where
  "hget db key field v =
     (case map_of (hash_store db) key of
        None \<Rightarrow> (False, v)
      | Some h \<Rightarrow> (case map_of h field of None \<Rightarrow> (False, v) | Some x \<Rightarrow> (True, x)))"

definition hexists :: "RedisDatabase \<Rightarrow> string \<Rightarrow> string \<Rightarrow> bool" where
  "hexists db key field =
     (case map_of (hash_store db) key of None \<Rightarrow> False | Some h \<Rightarrow> contains h field)"

definition hdel :: "RedisDatabase \<Rightarrow> string \<Rightarrow> string \<Rightarrow> RedisDatabase \<times> bool" where
  "hdel db key field =
     (case map_of (hash_store db) key of
        None \<Rightarrow> (db, False)
      | Some h \<Rightarrow>
          (db\<lparr>hash_store := AList.update key (AList.delete field h) (hash_store db)\<rparr>,
           contains h field))"

definition hgetall :: "RedisDatabase \<Rightarrow> string \<Rightarrow> hash" where
  "hgetall db key = (case map_of (hash_store db) key of Some h \<Rightarrow> h | None \<Rightarrow> [])"

definition hkeys :: "RedisDatabase \<Rightarrow> string \<Rightarrow> string list" where
  "hkeys db key = (case map_of (hash_store db) key of Some h \<Rightarrow> map fst h | None \<Rightarrow> [])"

definition hvals :: "RedisDatabase \<Rightarrow> string \<Rightarrow> string list" where
  "hvals db key = (case map_of (hash_store db) key of Some h \<Rightarrow> map snd h | None \<Rightarrow> [])"

definition hlen :: "RedisDatabase \<Rightarrow> string \<Rightarrow> int" where
  "hlen db key = (case map_of (hash_store db) key of Some h \<Rightarrow> int (length h) | None \<Rightarrow> 0)"

definition hmset :: "RedisDatabase \<Rightarrow> string \<Rightarrow> (string \<times> string) list \<Rightarrow> RedisDatabase \<times> bool" where
  "hmset db key fieldValues =
     (fold (\<lambda>(f, v) d. fst (hset d key f v)) fieldValues db, True)"

subsection \<open>Persistence: the streams\<close>

text \<open>\<^verbatim>\<open>std::isspace\<close> in the classic locale: space, and the control characters 9 to 13.\<close>

definition isspace :: "char \<Rightarrow> bool" where
  "isspace c = (c = CHR '' '' \<or> c = CHR 0x09 \<or> c = CHR 0x0A \<or> c = CHR 0x0B
                \<or> c = CHR 0x0C \<or> c = CHR 0x0D)"

text \<open>
  An \<^verbatim>\<open>istringstream\<close> is the text it has not read yet. An extraction skips white space
  first; it fails exactly when nothing is left then, and every later extraction fails
  too, as on a stream whose fail bit is set.

  \<^verbatim>\<open>iss >> type\<close> for a \<^verbatim>\<open>char\<close>: \<open>None\<close> when the extraction fails.
\<close>

definition extract_char :: "string \<Rightarrow> char option \<times> string" where
  "extract_char s = (case dropWhile isspace s of [] \<Rightarrow> (None, []) | c # r \<Rightarrow> (Some c, r))"

text \<open>\<^verbatim>\<open>iss >> word\<close> for a \<^verbatim>\<open>std::string\<close>: the extraction fails exactly when the word
  returned is empty, and the target string is empty then.\<close>

definition extract_word :: "string \<Rightarrow> string \<times> string" where
  "extract_word s =
     (let s' = dropWhile isspace s
      in (takeWhile (\<lambda>c. \<not> isspace c) s', dropWhile (\<lambda>c. \<not> isspace c) s'))"

text \<open>\<^verbatim>\<open>while (iss >> item)\<close>: the words read until an extraction fails.\<close>

function read_items :: "string \<Rightarrow> string list" where
  "read_items s =
     (let (w, r) = extract_word s in if w = [] then [] else w # read_items r)"
  by pat_completeness auto
termination
proof (relation "measure length")
  fix s :: string and x w r
  assume x: "x = extract_word s" and wr: "(w, r) = x" and ne: "w \<noteq> []"
  let ?s' = "dropWhile isspace s"
  have w: "w = takeWhile (\<lambda>c. \<not> isspace c) ?s'" and r: "r = dropWhile (\<lambda>c. \<not> isspace c) ?s'"
    using x wr by (simp_all add: extract_word_def Let_def)
  have "length w + length r = length ?s'"
    unfolding w r by (metis length_append takeWhile_dropWhile_id)
  moreover have "length ?s' \<le> length s"
    by (rule length_dropWhile_le)
  moreover have "0 < length w"
    using ne by simp
  ultimately have "length r < length s"
    by linarith
  then show "(r, s) \<in> measure length"
    by simp
qed simp

text \<open>\<^verbatim>\<open>while (std::getline(ifs, line))\<close>: the lines of the file. A line ends at a newline
  or at the end of the file; nothing after the last newline is no line.\<close>

function getlines :: "string \<Rightarrow> string list" where
  "getlines s =
     (if s = [] then []
      else takeWhile (\<lambda>c. c \<noteq> CHR 0x0A) s # getlines (drop 1 (dropWhile (\<lambda>c. c \<noteq> CHR 0x0A) s)))"
  by pat_completeness auto
termination
proof (relation "measure length")
  fix s :: string
  assume ne: "s \<noteq> []"
  let ?r = "dropWhile (\<lambda>c. c \<noteq> CHR 0x0A) s"
  have "length ?r \<le> length s"
    by (rule length_dropWhile_le)
  moreover have "length (drop 1 ?r) = length ?r - 1"
    by (rule length_drop)
  moreover have "0 < length s"
    using ne by simp
  ultimately have "length (drop 1 ?r) < length s"
    by linarith
  then show "(drop 1 ?r, s) \<in> measure length"
    by simp
qed simp

subsection \<open>Persistence: dump and load\<close>

text \<open>The file system is the map from a path to the contents of the file that can be
  opened for reading there.\<close>

type_synonym filesystem = "string \<rightharpoonup> string"

text \<open>The text of one record, before the newline that ends it.\<close>

definition dump_kv :: "string \<times> string \<Rightarrow> string" where
  "dump_kv kv = ''K '' @ fst kv @ '' '' @ snd kv"

definition dump_list :: "string \<times> string list \<Rightarrow> string" where
  "dump_list kv = ''L '' @ fst kv @ concat (map (\<lambda>item. '' '' @ item) (snd kv))"

definition dump_hash :: "string \<times> hash \<Rightarrow> string" where
  "dump_hash kv =
     ''H '' @ fst kv
       @ concat (map (\<lambda>field_val. '' '' @ fst field_val @ '':'' @ snd field_val) (snd kv))"

text \<open>What \<^verbatim>\<open>dump\<close> writes to the stream: the three loops, a newline after each record.\<close>

definition dump_text :: "RedisDatabase \<Rightarrow> string" where
  "dump_text db =
     concat (map (\<lambda>line. line @ [CHR 0x0A])
       (map dump_kv (kv_store db) @ map dump_list (list_store db)
          @ map dump_hash (hash_store db)))"

text \<open>\<open>opened\<close> tells whether the \<^verbatim>\<open>ofstream\<close> could be opened for writing.\<close>

definition dump :: "RedisDatabase \<Rightarrow> filesystem \<Rightarrow> bool \<Rightarrow> string \<Rightarrow> filesystem \<times> bool" where
  "dump db fs opened filename =
     (if \<not> opened then (fs, False) else (fs(filename \<mapsto> dump_text db), True))"

text \<open>The body of \<^verbatim>\<open>while (iss >> pair)\<close> of \<^verbatim>\<open>load\<close>: a word without a colon is dropped.\<close>

definition insert_pair :: "string \<Rightarrow> hash \<Rightarrow> hash" where
  "insert_pair pair h =
     (if CHR '':'' \<in> set pair
      then AList.update (takeWhile (\<lambda>c. c \<noteq> CHR '':'') pair)
             (drop 1 (dropWhile (\<lambda>c. c \<noteq> CHR '':'') pair)) h
      else h)"

text \<open>
  The body of the loop of \<^verbatim>\<open>load\<close> for one line. \<^verbatim>\<open>char type\<close> is not initialised and
  a failed extraction leaves it as it is: \<open>uninit\<close> is the value it holds then. The
  results of the extractions are not checked: a word that could not be read is the
  empty string.
\<close>

definition load_line :: "char \<Rightarrow> string \<Rightarrow> RedisDatabase \<Rightarrow> RedisDatabase" where
  "load_line uninit line db =
     (let (c, r) = extract_char line;
          type = (case c of None \<Rightarrow> uninit | Some x \<Rightarrow> x)
      in if type = CHR ''K'' then
           (let (key, r1) = extract_word r; (v, r2) = extract_word r1
            in db\<lparr>kv_store := AList.update key v (kv_store db)\<rparr>)
         else if type = CHR ''L'' then
           (let (key, r1) = extract_word r
            in db\<lparr>list_store := AList.update key (read_items r1) (list_store db)\<rparr>)
         else if type = CHR ''H'' then
           (let (key, r1) = extract_word r
            in db\<lparr>hash_store := AList.update key (fold insert_pair (read_items r1) []) (hash_store db)\<rparr>)
         else db)"

text \<open>The loop over the lines; \<open>uninit i\<close> is what \<^verbatim>\<open>type\<close> holds before the extraction
  on line \<open>i\<close>.\<close>

fun load_lines :: "(nat \<Rightarrow> char) \<Rightarrow> nat \<Rightarrow> string list \<Rightarrow> RedisDatabase \<Rightarrow> RedisDatabase" where
  "load_lines uninit i [] db = db"
| "load_lines uninit i (line # rest) db =
     load_lines uninit (Suc i) rest (load_line (uninit i) line db)"

definition load :: "RedisDatabase \<Rightarrow> (nat \<Rightarrow> char) \<Rightarrow> filesystem \<Rightarrow> string \<Rightarrow> RedisDatabase \<times> bool" where
  "load db uninit fs filename =
     (case fs filename of
        None \<Rightarrow> (db, False)
      | Some text \<Rightarrow>
          (load_lines uninit 0 (getlines text)
             (db\<lparr>kv_store := [], list_store := [], hash_store := []\<rparr>), True))"

section \<open>Notions used by the properties\<close>

text \<open>The key has an entry in the expiry map whose deadline lies before \<open>now\<close>: the test
  \<^verbatim>\<open>now > it->second\<close> of \<^verbatim>\<open>purgeExpired\<close> succeeds for it.\<close>

definition expired :: "time_point \<Rightarrow> (string \<times> time_point) list \<Rightarrow> string \<Rightarrow> bool" where
  "expired now es k = list_ex (\<lambda>(k', deadline). k' = k \<and> now > deadline) es"

text \<open>The key is in none of the three type-stores.\<close>

definition absent :: "RedisDatabase \<Rightarrow> string \<Rightarrow> bool" where
  "absent db k =
     (\<not> contains (kv_store db) k \<and> \<not> contains (list_store db) k \<and> \<not> contains (hash_store db) k)"

text \<open>Type exclusivity: no key is in two of the three type-stores.\<close>

definition type_exclusive :: "RedisDatabase \<Rightarrow> bool" where
  "type_exclusive db =
     (fst ` set (kv_store db) \<inter> fst ` set (list_store db) = {}
      \<and> fst ` set (kv_store db) \<inter> fst ` set (hash_store db) = {}
      \<and> fst ` set (list_store db) \<inter> fst ` set (hash_store db) = {})"

text \<open>The first character of the line that is not white space is no type tag of the
  format. (A line without such a character has no tag at all.)\<close>

definition unrecognized :: "string \<Rightarrow> bool" where
  "unrecognized line =
     (case fst (extract_char line) of
        None \<Rightarrow> False
      | Some c \<Rightarrow> c \<noteq> CHR ''K'' \<and> c \<noteq> CHR ''L'' \<and> c \<noteq> CHR ''H'')"

subsection \<open>Sequences of public operations\<close>

text \<open>One constructor for each public member function, with its arguments and the clock
  readings it takes. \<open>Load\<close> carries what opening the file gives: \<open>None\<close> when it cannot
  be opened, its contents otherwise. \<open>Dump\<close> does not change the store.\<close>

datatype operation =
    FlushAll
  | Set string string
  | Get time_point string
  | Keys time_point
  | Type time_point string
  | Del time_point string
  | Expire time_point time_point string int
  | PurgeExpired time_point
  | Rename time_point string string
  | Lget string
  | Llen string
  | Lpush string string
  | Rpush string string
  | Lpop string
  | Rpop string
  | Lrem string int string
  | Lindex string int
  | Lset string int string
  | Hset string string string
  | Hget string string
  | Hexists string string
  | Hdel string string
  | Hgetall string
  | Hkeys string
  | Hvals string
  | Hlen string
  | Hmset string "(string \<times> string) list"
  | Dump
  | Load "nat \<Rightarrow> char" "string option"

text \<open>The store after the operation.\<close>

fun apply_op :: "operation \<Rightarrow> RedisDatabase \<Rightarrow> RedisDatabase" where
  "apply_op FlushAll db = fst (flushAll db)"
| "apply_op (Set k v) db = set_db db k v"
| "apply_op (Get now k) db = fst (get db now k [])"
| "apply_op (Keys now) db = fst (keys db now)"
| "apply_op (Type now k) db = fst (type db now k)"
| "apply_op (Del now k) db = fst (del db now k)"
| "apply_op (Expire now now' k secs) db = fst (expire db now now' k secs)"
| "apply_op (PurgeExpired now) db = purgeExpired db now"
| "apply_op (Rename now oldKey newKey) db = fst (rename db now oldKey newKey)"
| "apply_op (Lpush k v) db = lpush db k v"
| "apply_op (Rpush k v) db = rpush db k v"
| "apply_op (Lpop k) db = fst (lpop db k [])"
| "apply_op (Rpop k) db = fst (rpop db k [])"
| "apply_op (Lrem k count v) db = fst (lrem db k count v)"
| "apply_op (Lset k index v) db = fst (lset db k index v)"
| "apply_op (Hset k f v) db = fst (hset db k f v)"
| "apply_op (Hdel k f) db = fst (hdel db k f)"
| "apply_op (Hmset k fieldValues) db = fst (hmset db k fieldValues)"
| "apply_op (Load uninit file) db = fst (load db uninit (\<lambda>_. file) [])"
| "apply_op _ db = db"

text \<open>The type tag and the key that \<^verbatim>\<open>load\<close> reads from a line, and the keys it reads
  from the lines with a given tag.\<close>

definition line_type :: "char \<Rightarrow> string \<Rightarrow> char" where
  "line_type uninit line = (case fst (extract_char line) of None \<Rightarrow> uninit | Some c \<Rightarrow> c)"

definition line_key :: "string \<Rightarrow> string" where
  "line_key line = fst (extract_word (snd (extract_char line)))"

text \<open>A line without a character that is no white space: \<^verbatim>\<open>iss >> type\<close> fails on it.
  The words that follow the type tag of a line, as \<^verbatim>\<open>iss >> word\<close> reads them one after
  the other; and the \<open>i\<close>-th of the words read, the empty string that a failed extraction
  leaves when there are fewer.\<close>

definition blank :: "string \<Rightarrow> bool" where
  "blank line = (fst (extract_char line) = None)"

definition line_words :: "string \<Rightarrow> string list" where
  "line_words line = read_items (snd (extract_char line))"

definition word_at :: "string list \<Rightarrow> nat \<Rightarrow> string" where
  "word_at ws i = (if i < length ws then ws ! i else [])"

fun loaded_keys :: "char \<Rightarrow> (nat \<Rightarrow> char) \<Rightarrow> nat \<Rightarrow> string list \<Rightarrow> string list" where
  "loaded_keys tag uninit i [] = []"
| "loaded_keys tag uninit i (line # rest) =
     (if line_type (uninit i) line = tag then [line_key line] else [])
       @ loaded_keys tag uninit (Suc i) rest"

text \<open>The operation writes no key that a store of another type holds: the condition under
  which it keeps type exclusivity. The code checks none of it. For \<^verbatim>\<open>rename\<close> the stores
  are those after its purge. For \<^verbatim>\<open>load\<close> the keys are those it reads under each tag: a
  blank line counts with the empty key under the value the uninitialised \<^verbatim>\<open>type\<close> holds
  for it.\<close>

fun same_type_write :: "operation \<Rightarrow> RedisDatabase \<Rightarrow> bool" where
  "same_type_write (Set k v) db =
     (\<not> contains (list_store db) k \<and> \<not> contains (hash_store db) k)"
| "same_type_write (Lpush k v) db =
     (\<not> contains (kv_store db) k \<and> \<not> contains (hash_store db) k)"
| "same_type_write (Rpush k v) db =
     (\<not> contains (kv_store db) k \<and> \<not> contains (hash_store db) k)"
| "same_type_write (Hset k f v) db =
     (\<not> contains (kv_store db) k \<and> \<not> contains (list_store db) k)"
| "same_type_write (Hmset k fieldValues) db =
     (fieldValues = [] \<or> \<not> contains (kv_store db) k \<and> \<not> contains (list_store db) k)"
| "same_type_write (Rename now oldKey newKey) db =
     (let db1 = purgeExpired db now in
      (\<not> contains (kv_store db1) oldKey
         \<or> \<not> contains (list_store db1) newKey \<and> \<not> contains (hash_store db1) newKey)
      \<and> (\<not> contains (list_store db1) oldKey
         \<or> \<not> contains (kv_store db1) newKey \<and> \<not> contains (hash_store db1) newKey)
      \<and> (\<not> contains (hash_store db1) oldKey
         \<or> \<not> contains (kv_store db1) newKey \<and> \<not> contains (list_store db1) newKey))"
| "same_type_write (Load uninit (Some text)) db =
     (let ls = getlines text;
          ks = loaded_keys (CHR ''K'') uninit 0 ls;
          ll = loaded_keys (CHR ''L'') uninit 0 ls;
          hs = loaded_keys (CHR ''H'') uninit 0 ls
      in set ks \<inter> set ll = {} \<and> set ks \<inter> set hs = {} \<and> set ll \<inter> set hs = {})"
| "same_type_write _ db = True"

text \<open>Running a sequence of operations, and whether each of them is a write of the same
  type in the store it is applied to.\<close>

fun run :: "operation list \<Rightarrow> RedisDatabase \<Rightarrow> RedisDatabase" where
  "run [] db = db"
| "run (op # ops) db = run ops (apply_op op db)"

fun same_type_writes :: "operation list \<Rightarrow> RedisDatabase \<Rightarrow> bool" where
  "same_type_writes [] db = True"
| "same_type_writes (op # ops) db =
     (same_type_write op db \<and> same_type_writes ops (apply_op op db))"

subsection \<open>What the specification says of lrem\<close>

text \<open>Removing up to \<open>n\<close> occurrences of \<open>v\<close>, scanning from the head.\<close>

fun remove_first :: "nat \<Rightarrow> string \<Rightarrow> string list \<Rightarrow> string list" where
  "remove_first 0 v xs = xs"
| "remove_first (Suc n) v [] = []"
| "remove_first (Suc n) v (x # xs) =
     (if x = v then remove_first n v xs else x # remove_first (Suc n) v xs)"

text \<open>The list after \<^verbatim>\<open>lrem(key, count, value)\<close>, in the words of the specification: all
  occurrences for \<open>count = 0\<close>, up to \<open>count\<close> from the head for \<open>count > 0\<close>, up to
  \<open>|count|\<close> from the tail for \<open>count < 0\<close>.\<close>

definition lrem_spec :: "int \<Rightarrow> string \<Rightarrow> string list \<Rightarrow> string list" where
  "lrem_spec count v xs =
     (if count = 0 then filter (\<lambda>x. x \<noteq> v) xs
      else if count > 0 then remove_first (nat count) v xs
      else rev (remove_first (nat \<bar>count\<bar>) v (rev xs)))"

subsection \<open>Stores that the text format can hold\<close>

text \<open>A word without white space, and the stores whose dump \<^verbatim>\<open>load\<close> reads back: every
  key is a non-empty word, a string value is a word (it may be empty), a list item is a
  non-empty word, a hash field is a word without a colon and a hash value is a word.
  \<open>unique_keys\<close> holds of every \<^verbatim>\<open>unordered_map\<close>.\<close>

definition word :: "string \<Rightarrow> bool" where
  "word w = list_all (\<lambda>c. \<not> isspace c) w"

definition unique_keys :: "RedisDatabase \<Rightarrow> bool" where
  "unique_keys db =
     (distinct (map fst (kv_store db)) \<and> distinct (map fst (list_store db))
      \<and> distinct (map fst (hash_store db))
      \<and> list_all (\<lambda>(k, h). distinct (map fst h)) (hash_store db))"

definition storable :: "RedisDatabase \<Rightarrow> bool" where
  "storable db =
     (list_all (\<lambda>(k, v). k \<noteq> [] \<and> word k \<and> word v) (kv_store db)
      \<and> list_all (\<lambda>(k, items). k \<noteq> [] \<and> word k \<and> list_all (\<lambda>item. item \<noteq> [] \<and> word item) items)
           (list_store db)
      \<and> list_all (\<lambda>(k, h). k \<noteq> [] \<and> word k
             \<and> list_all (\<lambda>(f, v). word f \<and> CHR '':'' \<notin> set f \<and> word v) h)
           (hash_store db))"

section \<open>Properties\<close>

subsection \<open>Lookups, expiry and the purge\<close>

declare getlines.simps [simp del] read_items.simps [simp del] lrem_tail.simps [simp del]

lemma contains_map_of: "contains m k \<longleftrightarrow> map_of m k \<noteq> None"
  by (simp add: contains_def split: option.splits)

lemma contains_iff: "contains m k \<longleftrightarrow> k \<in> fst ` set m"
  by (simp add: contains_map_of map_of_eq_None_iff)

lemma expired_Nil [simp]: "expired now [] k = False" by (simp add: expired_def)
lemma expired_Cons [simp]: "expired now ((k', d) # es) k = ((k' = k \<and> now > d) \<or> expired now es k)"
  by (simp add: expired_def)

lemma expired_iff: "expired now es k \<longleftrightarrow> (\<exists>d. (k, d) \<in> set es \<and> d < now)"
  by (induction es) auto

lemma purge_loop_kv:
  "map_of (kv_store (purge_loop now es db)) k = (if expired now es k then None else map_of (kv_store db) k)"
  by (induction es arbitrary: db) (auto simp: erase_expired_def delete_conv')

lemma purge_loop_list:
  "map_of (list_store (purge_loop now es db)) k = (if expired now es k then None else map_of (list_store db) k)"
  by (induction es arbitrary: db) (auto simp: erase_expired_def delete_conv')

lemma purge_loop_hash:
  "map_of (hash_store (purge_loop now es db)) k = (if expired now es k then None else map_of (hash_store db) k)"
  by (induction es arbitrary: db) (auto simp: erase_expired_def delete_conv')

lemma purge_loop_expiry:
  "map_of (expiry_map (purge_loop now es db)) k = (if expired now es k then None else map_of (expiry_map db) k)"
  by (induction es arbitrary: db) (auto simp: erase_expired_def delete_conv')

lemma purge_contains:
  "contains (kv_store (purgeExpired db now)) k = (\<not> expired now (expiry_map db) k \<and> contains (kv_store db) k)"
  "contains (list_store (purgeExpired db now)) k = (\<not> expired now (expiry_map db) k \<and> contains (list_store db) k)"
  "contains (hash_store (purgeExpired db now)) k = (\<not> expired now (expiry_map db) k \<and> contains (hash_store db) k)"
  "contains (expiry_map (purgeExpired db now)) k = (\<not> expired now (expiry_map db) k \<and> contains (expiry_map db) k)"
  by (simp_all add: contains_map_of purgeExpired_def purge_loop_kv purge_loop_list purge_loop_hash purge_loop_expiry)

lemma contains_move_key_self: "\<not> contains (move_key k k m) k"
  by (simp add: contains_map_of move_key_def delete_conv' split: option.splits)

lemma expired_update:
  "deadline < later \<Longrightarrow> expired later (AList.update k deadline es) k"
  by (induction es) (auto simp: expired_def)

subsection \<open>del\<close>

text \<open>
  C2: \<^verbatim>\<open>del(k)\<close> removes \<open>k\<close> from every type-store that holds it and from the expiry map,
  and returns true exactly when a store held \<open>k\<close>. The code returns \<^verbatim>\<open>false\<close> whatever it
  erased, and it leaves the deadline of \<open>k\<close> in the expiry map: after \<^verbatim>\<open>set("k","v")\<close> and
  \<^verbatim>\<open>expire("k",100)\<close>, \<^verbatim>\<open>del("k")\<close> erases the string, answers \<^verbatim>\<open>false\<close> and keeps the
  deadline.
\<close>

theorem del_returns_false_and_keeps_deadline:
  "(let db = fst (expire (set_db empty_db ''k'' ''v'') 0 0 ''k'' 100);
        (db', erased) = del db 1 ''k''
    in contains (kv_store db) ''k'' \<and> \<not> contains (kv_store db') ''k'' \<and> erased = False
       \<and> contains (expiry_map db') ''k'')"
  by (simp add: del_def expire_def set_db_def empty_db_def purgeExpired_def contains_map_of
      seconds_def erase_expired_def Let_def)

subsection \<open>rename\<close>




text \<open>After \<^verbatim>\<open>set("k","v")\<close> and \<^verbatim>\<open>expire("k",-1)\<close> the key \<open>k\<close> is in the string store only,
  and \<^verbatim>\<open>rename("k","k")\<close> returns \<^verbatim>\<open>false\<close>: its purge has removed \<open>k\<close> first.\<close>

theorem rename_self_expired:
  "(let db = fst (expire (set_db empty_db ''k'' ''v'') 0 0 ''k'' (- 1))
    in contains (kv_store db) ''k'' \<and> \<not> contains (list_store db) ''k''
       \<and> \<not> contains (hash_store db) ''k'' \<and> snd (rename db 1 ''k'' ''k'') = False)"
  by (simp add: rename_def expire_def set_db_def empty_db_def purgeExpired_def
      contains_map_of seconds_def erase_expired_def move_key_def Let_def)

text \<open>
  C9, as the code has it: for every key \<open>k\<close> that is in a type-store and is not past a
  deadline when \<^verbatim>\<open>rename\<close> purges, \<^verbatim>\<open>rename(k, k)\<close> returns true and deletes \<open>k\<close>: it is
  then in none of the three type-stores and not in the expiry map.
\<close>

theorem rename_self_deletes:
  assumes "\<not> absent db k" and "\<not> expired now (expiry_map db) k"
  shows "snd (rename db now k k) = True
         \<and> absent (fst (rename db now k k)) k
         \<and> \<not> contains (expiry_map (fst (rename db now k k))) k"
proof -
  have "\<not> absent (purgeExpired db now) k"
    using assms by (simp add: absent_def purge_contains)
  then have "snd (rename db now k k) = True"
    by (auto simp: rename_def absent_def Let_def)
  moreover have "absent (fst (rename db now k k)) k"
    by (simp add: rename_def absent_def Let_def contains_move_key_self)
  moreover have "\<not> contains (expiry_map (fst (rename db now k k))) k"
    by (simp add: rename_def Let_def contains_move_key_self)
  ultimately show ?thesis by simp
qed

theorem rename_self_deletes_witness:
  "\<not> absent (fst (expire (set_db empty_db ''k'' ''v'') 0 0 ''k'' 10)) ''k''
   \<and> \<not> expired 1 (expiry_map (fst (expire (set_db empty_db ''k'' ''v'') 0 0 ''k'' 10))) ''k''
   \<and> contains (expiry_map (fst (expire (set_db empty_db ''k'' ''v'') 0 0 ''k'' 10))) ''k''
   \<and> snd (rename (fst (expire (set_db empty_db ''k'' ''v'') 0 0 ''k'' 10)) 1 ''k'' ''k'') = True
   \<and> absent (fst (rename (fst (expire (set_db empty_db ''k'' ''v'') 0 0 ''k'' 10)) 1 ''k'' ''k'')) ''k''
   \<and> \<not> contains (expiry_map (fst (rename (fst (expire (set_db empty_db ''k'' ''v'') 0 0 ''k'' 10)) 1 ''k'' ''k''))) ''k''"
proof -
  let ?db = "fst (expire (set_db empty_db ''k'' ''v'') 0 0 ''k'' 10)"
  have db: "?db = \<lparr>kv_store = [(''k'', ''v'')], list_store = [], hash_store = [],
                   expiry_map = [(''k'', 10000000000)]\<rparr>"
    by (simp add: expire_def set_db_def empty_db_def purgeExpired_def contains_map_of seconds_def)
  have a: "\<not> absent ?db ''k''"
    by (simp add: db absent_def contains_map_of)
  have b: "\<not> expired 1 (expiry_map ?db) ''k''"
    by (simp add: db)
  have c: "contains (expiry_map ?db) ''k''"
    by (simp add: db contains_map_of)
  show ?thesis
    using a b c rename_self_deletes [OF a b] by simp
qed

subsection \<open>expire\<close>

text \<open>After \<^verbatim>\<open>set("k","v")\<close>, \<^verbatim>\<open>expire("k",0)\<close> sets the deadline to its clock reading; a
  \<^verbatim>\<open>get("k")\<close> whose purge reads the same clock value finds the deadline not passed (the
  test is \<^verbatim>\<open>now > deadline\<close>) and returns \<open>v\<close>: the key has not been removed.\<close>

theorem expire_zero_survives_same_reading:
  "(let db = set_db empty_db ''k'' ''v'';
        (db1, ok) = expire db 5 5 ''k'' 0;
        (db2, found, v) = get db1 5 ''k'' []
    in ok \<and> found \<and> v = ''v'' \<and> contains (kv_store db2) ''k'' \<and> contains (expiry_map db2) ''k'')"
  by (simp add: set_db_def empty_db_def expire_def get_def purgeExpired_def seconds_def
      contains_map_of Let_def)

text \<open>
  C5, as the code has it: \<^verbatim>\<open>expire(key, ttlSeconds)\<close> returns false, and leaves the store
  as its purge left it, exactly when after the purge the key is in none of the three
  type-stores; otherwise it returns true and sets the deadline of the key to the clock
  reading plus \<open>ttlSeconds\<close>, whatever the integer, leaving the other deadlines and the
  type-stores alone. With a negative \<open>ttlSeconds\<close> the next purge, at a clock reading
  not earlier than the one \<^verbatim>\<open>expire\<close> took, removes the key from the type-stores and the
  expiry map; with \<open>ttlSeconds = 0\<close> the next purge at a later clock reading does (the
  test of the purge is \<^verbatim>\<open>now > deadline\<close>).
\<close>

theorem expire_contract:
  "snd (expire db now now' key secs) = (\<not> absent (purgeExpired db now) key)
   \<and> (absent (purgeExpired db now) key \<longrightarrow> fst (expire db now now' key secs) = purgeExpired db now)
   \<and> (\<not> absent (purgeExpired db now) key \<longrightarrow>
        map_of (expiry_map (fst (expire db now now' key secs))) key = Some (now' + seconds secs)
        \<and> (\<forall>k. k \<noteq> key \<longrightarrow>
              map_of (expiry_map (fst (expire db now now' key secs))) k
                = map_of (expiry_map (purgeExpired db now)) k)
        \<and> kv_store (fst (expire db now now' key secs)) = kv_store (purgeExpired db now)
        \<and> list_store (fst (expire db now now' key secs)) = list_store (purgeExpired db now)
        \<and> hash_store (fst (expire db now now' key secs)) = hash_store (purgeExpired db now)
        \<and> (secs \<le> 0 \<and> (now' < later \<or> secs < 0 \<and> now' \<le> later) \<longrightarrow>
              absent (purgeExpired (fst (expire db now now' key secs)) later) key
              \<and> \<not> contains (expiry_map (purgeExpired (fst (expire db now now' key secs)) later)) key))"
proof -
  let ?db1 = "purgeExpired db now"
  let ?r = "expire db now now' key secs"
  have ret: "snd ?r = (\<not> absent ?db1 key)"
    by (simp add: expire_def absent_def Let_def)
  have unchanged: "absent ?db1 key \<longrightarrow> fst ?r = ?db1"
    by (simp add: expire_def absent_def Let_def)
  have upd: "\<not> absent ?db1 key \<Longrightarrow>
      fst ?r = ?db1\<lparr>expiry_map := AList.update key (now' + seconds secs) (expiry_map ?db1)\<rparr>"
    by (auto simp: expire_def absent_def Let_def)
  have late: "absent (purgeExpired (fst ?r) later) key
              \<and> \<not> contains (expiry_map (purgeExpired (fst ?r) later)) key"
    if pres: "\<not> absent ?db1 key" and s: "secs \<le> 0"
      and t: "now' < later \<or> secs < 0 \<and> now' \<le> later"
  proof -
    have "now' + seconds secs < later"
      using s t by (auto simp: seconds_def)
    then have "expired later (expiry_map (fst ?r)) key"
      by (simp add: upd [OF pres] expired_update)
    then show ?thesis
      by (simp add: absent_def purge_contains)
  qed
  show ?thesis
    using ret unchanged late by (auto simp: upd update_conv')
qed

theorem expire_contract_witness:
  "\<not> absent (purgeExpired (set_db empty_db ''k'' ''v'') 5) ''k'' \<and> (0::int) \<le> 0 \<and> (7::int) < 8
   \<and> snd (expire (set_db empty_db ''k'' ''v'') 5 7 ''k'' 0) = True
   \<and> map_of (expiry_map (fst (expire (set_db empty_db ''k'' ''v'') 5 7 ''k'' 0))) ''k'' = Some 7
   \<and> absent (purgeExpired (fst (expire (set_db empty_db ''k'' ''v'') 5 7 ''k'' 0)) 8) ''k''
   \<and> absent (purgeExpired empty_db 5) ''k''
   \<and> fst (expire empty_db 5 7 ''k'' 0) = purgeExpired empty_db 5"
proof -
  have p: "\<not> absent (purgeExpired (set_db empty_db ''k'' ''v'') 5) ''k''"
    by (simp add: absent_def purgeExpired_def set_db_def empty_db_def contains_map_of)
  have q: "absent (purgeExpired empty_db 5) ''k''"
    by (simp add: absent_def purgeExpired_def empty_db_def contains_map_of)
  show ?thesis
    using p q expire_contract [of "set_db empty_db ''k'' ''v''" 5 7 "''k''" 0 8]
      expire_contract [of empty_db 5 7 "''k''" 0 8]
    by (simp add: seconds_def)
qed

subsection \<open>lpop and rpop\<close>

text \<open>
  C8: \<^verbatim>\<open>lpop(k)\<close> and \<^verbatim>\<open>rpop(k)\<close> return false exactly when \<open>k\<close> is not in the list store or
  its list is empty, and then change neither the store nor the out-parameter; otherwise
  they remove the front, respectively the back, element, return it through the
  out-parameter and keep the entry of the list, also when the list is empty now. So on a
  key without elements \<^verbatim>\<open>rpush(k,"a")\<close>, \<^verbatim>\<open>rpush(k,"b")\<close> make \<^verbatim>\<open>lpop\<close> return \<open>a\<close>, then
  \<open>b\<close>, then fail, with the empty list still in the store.
\<close>

theorem lpop_rpop_contract:
  "(fst (snd (lpop db k v)) = False \<longleftrightarrow> map_of (list_store db) k = None \<or> map_of (list_store db) k = Some [])
   \<and> (fst (snd (rpop db k v)) = False \<longleftrightarrow> map_of (list_store db) k = None \<or> map_of (list_store db) k = Some [])
   \<and> (fst (snd (lpop db k v)) = False \<longrightarrow> lpop db k v = (db, False, v))
   \<and> (fst (snd (rpop db k v)) = False \<longrightarrow> rpop db k v = (db, False, v))
   \<and> (\<forall>x xs. map_of (list_store db) k = Some (x # xs) \<longrightarrow>
         lpop db k v = (db\<lparr>list_store := AList.update k xs (list_store db)\<rparr>, True, x)
         \<and> map_of (list_store (fst (lpop db k v))) k = Some xs)
   \<and> (\<forall>x xs. map_of (list_store db) k = Some (xs @ [x]) \<longrightarrow>
         rpop db k v = (db\<lparr>list_store := AList.update k xs (list_store db)\<rparr>, True, x)
         \<and> map_of (list_store (fst (rpop db k v))) k = Some xs)
   \<and> (lget db k = [] \<longrightarrow>
        (let db2 = rpush (rpush db k ''a'') k ''b'';
             (db3, ok1, v1) = lpop db2 k v;
             (db4, ok2, v2) = lpop db3 k v1;
             (db5, ok3, v3) = lpop db4 k v2
         in ok1 \<and> v1 = ''a'' \<and> ok2 \<and> v2 = ''b'' \<and> \<not> ok3 \<and> v3 = ''b''
            \<and> map_of (list_store db5) k = Some []))"
proof -
  have f1: "fst (snd (lpop db k v)) = False \<longleftrightarrow>
            map_of (list_store db) k = None \<or> map_of (list_store db) k = Some []"
    by (simp add: lpop_def split: option.splits list.splits)
  have f2: "fst (snd (rpop db k v)) = False \<longleftrightarrow>
            map_of (list_store db) k = None \<or> map_of (list_store db) k = Some []"
    by (simp add: rpop_def split: option.splits list.splits)
  have f3: "fst (snd (lpop db k v)) = False \<longrightarrow> lpop db k v = (db, False, v)"
    by (simp add: lpop_def split: option.splits list.splits)
  have f4: "fst (snd (rpop db k v)) = False \<longrightarrow> rpop db k v = (db, False, v)"
    by (simp add: rpop_def split: option.splits list.splits)
  have f5: "\<forall>x xs. map_of (list_store db) k = Some (x # xs) \<longrightarrow>
         lpop db k v = (db\<lparr>list_store := AList.update k xs (list_store db)\<rparr>, True, x)
         \<and> map_of (list_store (fst (lpop db k v))) k = Some xs"
    by (simp add: lpop_def update_conv')
  have f6: "\<forall>x xs. map_of (list_store db) k = Some (xs @ [x]) \<longrightarrow>
         rpop db k v = (db\<lparr>list_store := AList.update k xs (list_store db)\<rparr>, True, x)
         \<and> map_of (list_store (fst (rpop db k v))) k = Some xs"
  proof (intro allI impI)
    fix x xs
    assume a: "map_of (list_store db) k = Some (xs @ [x])"
    obtain y ys where ys: "xs @ [x] = y # ys"
      by (cases xs) auto
    have "butlast (y # ys) = xs" "last (y # ys) = x"
      using ys by (metis butlast_snoc, metis last_snoc)
    then show "rpop db k v = (db\<lparr>list_store := AList.update k xs (list_store db)\<rparr>, True, x)
         \<and> map_of (list_store (fst (rpop db k v))) k = Some xs"
      using a ys by (simp add: rpop_def update_conv')
  qed
  have f7: "lget db k = [] \<longrightarrow>
        (let db2 = rpush (rpush db k ''a'') k ''b'';
             (db3, ok1, v1) = lpop db2 k v;
             (db4, ok2, v2) = lpop db3 k v1;
             (db5, ok3, v3) = lpop db4 k v2
         in ok1 \<and> v1 = ''a'' \<and> ok2 \<and> v2 = ''b'' \<and> \<not> ok3 \<and> v3 = ''b''
            \<and> map_of (list_store db5) k = Some [])"
    by (auto simp: lget_def rpush_def lpop_def at_default_def update_conv' Let_def
        split: option.splits)
  show ?thesis
    using f1 f2 f3 f4 f5 f6 f7 by blast
qed

theorem lpop_rpop_contract_witness:
  "map_of (list_store (rpush (rpush empty_db ''k'' ''x'') ''k'' ''y'')) ''k'' = Some [''x'', ''y'']
   \<and> lpop (rpush (rpush empty_db ''k'' ''x'') ''k'' ''y'') ''k'' ''old''
       = (empty_db\<lparr>list_store := [(''k'', [''y''])]\<rparr>, True, ''x'')
   \<and> rpop (rpush (rpush empty_db ''k'' ''x'') ''k'' ''y'') ''k'' ''old''
       = (empty_db\<lparr>list_store := [(''k'', [''x''])]\<rparr>, True, ''y'')
   \<and> fst (snd (lpop empty_db ''k'' ''old'')) = False
   \<and> lpop empty_db ''k'' ''old'' = (empty_db, False, ''old'')
   \<and> rpop empty_db ''k'' ''old'' = (empty_db, False, ''old'')
   \<and> lget empty_db ''k'' = []
   \<and> (let db2 = rpush (rpush empty_db ''k'' ''a'') ''k'' ''b'';
           (db3, ok1, v1) = lpop db2 ''k'' ''old'';
           (db4, ok2, v2) = lpop db3 ''k'' v1;
           (db5, ok3, v3) = lpop db4 ''k'' v2
       in ok1 \<and> v1 = ''a'' \<and> ok2 \<and> v2 = ''b'' \<and> \<not> ok3 \<and> v3 = ''b''
          \<and> map_of (list_store db5) ''k'' = Some [])"
proof -
  let ?db = "rpush (rpush empty_db ''k'' ''x'') ''k'' ''y''"
  have db: "?db = empty_db\<lparr>list_store := [(''k'', [''x'', ''y''])]\<rparr>"
    by (simp add: rpush_def empty_db_def at_default_def)
  have a: "map_of (list_store ?db) ''k'' = Some (''x'' # [''y''])"
    by (simp add: db)
  have b: "map_of (list_store ?db) ''k'' = Some ([''x''] @ [''y''])"
    by (simp add: db)
  have c: "map_of (list_store empty_db) ''k'' = None"
    by (simp add: empty_db_def)
  have d: "lget empty_db ''k'' = []"
    by (simp add: lget_def empty_db_def)
  note t1 = lpop_rpop_contract [of ?db "''k''" "''old''"]
  note t2 = lpop_rpop_contract [of empty_db "''k''" "''old''"]
  have l: "lpop ?db ''k'' ''old'' = (?db\<lparr>list_store := AList.update ''k'' [''y''] (list_store ?db)\<rparr>, True, ''x'')"
    using t1 a by blast
  have r: "rpop ?db ''k'' ''old'' = (?db\<lparr>list_store := AList.update ''k'' [''x''] (list_store ?db)\<rparr>, True, ''y'')"
    using t1 b by blast
  have f: "fst (snd (lpop empty_db ''k'' ''old'')) = False" "fst (snd (rpop empty_db ''k'' ''old'')) = False"
    using t2 c by blast+
  then have g: "lpop empty_db ''k'' ''old'' = (empty_db, False, ''old'')"
     "rpop empty_db ''k'' ''old'' = (empty_db, False, ''old'')"
    using t2 by blast+
  have h: "(let db2 = rpush (rpush empty_db ''k'' ''a'') ''k'' ''b'';
           (db3, ok1, v1) = lpop db2 ''k'' ''old'';
           (db4, ok2, v2) = lpop db3 ''k'' v1;
           (db5, ok3, v3) = lpop db4 ''k'' v2
       in ok1 \<and> v1 = ''a'' \<and> ok2 \<and> v2 = ''b'' \<and> \<not> ok3 \<and> v3 = ''b''
          \<and> map_of (list_store db5) ''k'' = Some [])"
    using t2 d by blast
  show ?thesis
    using a d f g h l r unfolding db by (simp add: empty_db_def)
qed

subsection \<open>hdel\<close>

text \<open>After \<^verbatim>\<open>set("k","v")\<close> and \<^verbatim>\<open>hset("k","f","1")\<close> the hash of \<open>k\<close> holds the field \<open>f\<close>
  only; \<^verbatim>\<open>hdel("k","f")\<close> returns true, and \<^verbatim>\<open>type("k")\<close> is then \<open>string\<close>, not \<open>hash\<close>.\<close>

theorem hdel_two_stores_type:
  "(let db = fst (hset (set_db empty_db ''k'' ''v'') ''k'' ''f'' ''1'');
        db' = fst (hdel db ''k'' ''f'')
    in map_of (hash_store db) ''k'' = Some [(''f'', ''1'')]
       \<and> snd (hdel db ''k'' ''f'') = True
       \<and> snd (type db' 0 ''k'') = ''string'')"
  by (simp add: hset_def set_db_def empty_db_def at_default_def hdel_def contains_map_of
      type_def purgeExpired_def Let_def)

text \<open>
  C10, as the code has it: for every key \<open>k\<close> whose hash holds exactly one field \<open>f\<close>,
  \<^verbatim>\<open>hdel(k, f)\<close> returns true and leaves an empty hash behind: \<^verbatim>\<open>hlen(k)\<close> is 0 and
  \<^verbatim>\<open>hgetall(k)\<close> is empty. If \<open>k\<close> is not past a deadline then, \<^verbatim>\<open>keys()\<close> includes \<open>k\<close>,
  and \<^verbatim>\<open>type(k)\<close> is \<open>hash\<close> if moreover neither the string store nor the list store
  holds \<open>k\<close>. \<^verbatim>\<open>hdel\<close> never removes a key from the hash store.
\<close>

theorem hdel_leaves_empty_hash:
  "(map_of (hash_store db) k = Some [(f, v)] \<longrightarrow>
      snd (hdel db k f) = True
      \<and> map_of (hash_store (fst (hdel db k f))) k = Some []
      \<and> hlen (fst (hdel db k f)) k = 0
      \<and> hgetall (fst (hdel db k f)) k = []
      \<and> (\<not> expired now (expiry_map db) k \<longrightarrow> k \<in> set (snd (keys (fst (hdel db k f)) now)))
      \<and> (\<not> expired now (expiry_map db) k \<and> \<not> contains (kv_store db) k \<and> \<not> contains (list_store db) k
           \<longrightarrow> snd (type (fst (hdel db k f)) now k) = ''hash''))
   \<and> (contains (hash_store db) k \<longrightarrow> contains (hash_store (fst (hdel db k g))) k)"
proof -
  have keep: "contains (hash_store db) k \<longrightarrow> contains (hash_store (fst (hdel db k g))) k"
    by (auto simp: hdel_def contains_map_of update_conv' split: option.splits)
  have one: "snd (hdel db k f) = True
      \<and> map_of (hash_store (fst (hdel db k f))) k = Some []
      \<and> hlen (fst (hdel db k f)) k = 0
      \<and> hgetall (fst (hdel db k f)) k = []
      \<and> (\<not> expired now (expiry_map db) k \<longrightarrow> k \<in> set (snd (keys (fst (hdel db k f)) now)))
      \<and> (\<not> expired now (expiry_map db) k \<and> \<not> contains (kv_store db) k \<and> \<not> contains (list_store db) k
           \<longrightarrow> snd (type (fst (hdel db k f)) now k) = ''hash'')"
    if h: "map_of (hash_store db) k = Some [(f, v)]"
  proof -
    let ?db' = "fst (hdel db k f)"
    have db': "?db' = db\<lparr>hash_store := AList.update k [] (hash_store db)\<rparr>"
      using h by (simp add: hdel_def)
    have ret: "snd (hdel db k f) = True"
      using h by (simp add: hdel_def contains_map_of)
    have m: "map_of (hash_store ?db') k = Some []"
      by (simp add: db' update_conv')
    have c: "contains (hash_store ?db') k"
      by (simp add: m contains_map_of)
    have e: "expiry_map ?db' = expiry_map db" "kv_store ?db' = kv_store db" "list_store ?db' = list_store db"
      by (simp_all add: db')
    have k: "\<not> expired now (expiry_map db) k \<longrightarrow> k \<in> set (snd (keys ?db' now))"
      using c e purge_contains(3) [of ?db' now k]
      by (auto simp: keys_def Let_def contains_iff)
    have t: "\<not> expired now (expiry_map db) k \<and> \<not> contains (kv_store db) k \<and> \<not> contains (list_store db) k
           \<longrightarrow> snd (type ?db' now k) = ''hash''"
      using c e by (simp add: type_def Let_def purge_contains)
    show ?thesis
      using ret m k t by (simp add: hlen_def hgetall_def)
  qed
  show ?thesis
    using keep one by blast
qed

theorem hdel_leaves_empty_hash_witness:
  "map_of (hash_store (fst (hset empty_db ''k'' ''f'' ''1''))) ''k'' = Some [(''f'', ''1'')]
   \<and> \<not> expired 0 (expiry_map (fst (hset empty_db ''k'' ''f'' ''1''))) ''k''
   \<and> \<not> contains (kv_store (fst (hset empty_db ''k'' ''f'' ''1''))) ''k''
   \<and> \<not> contains (list_store (fst (hset empty_db ''k'' ''f'' ''1''))) ''k''
   \<and> contains (hash_store (fst (hset empty_db ''k'' ''f'' ''1''))) ''k''
   \<and> snd (hdel (fst (hset empty_db ''k'' ''f'' ''1'')) ''k'' ''f'') = True
   \<and> hlen (fst (hdel (fst (hset empty_db ''k'' ''f'' ''1'')) ''k'' ''f'')) ''k'' = 0
   \<and> hgetall (fst (hdel (fst (hset empty_db ''k'' ''f'' ''1'')) ''k'' ''f'')) ''k'' = []
   \<and> ''k'' \<in> set (snd (keys (fst (hdel (fst (hset empty_db ''k'' ''f'' ''1'')) ''k'' ''f'')) 0))
   \<and> snd (type (fst (hdel (fst (hset empty_db ''k'' ''f'' ''1'')) ''k'' ''f'')) 0 ''k'') = ''hash''
   \<and> contains (hash_store (fst (hdel (fst (hset empty_db ''k'' ''f'' ''1'')) ''k'' ''f''))) ''k''"
proof -
  let ?db = "fst (hset empty_db ''k'' ''f'' ''1'')"
  have db: "?db = empty_db\<lparr>hash_store := [(''k'', [(''f'', ''1'')])]\<rparr>"
    by (simp add: hset_def empty_db_def at_default_def)
  have a: "map_of (hash_store ?db) ''k'' = Some [(''f'', ''1'')]"
    by (simp add: db)
  have b: "\<not> expired 0 (expiry_map ?db) ''k''"
    unfolding db by (simp add: empty_db_def)
  have c: "\<not> contains (kv_store ?db) ''k''" "\<not> contains (list_store ?db) ''k''"
    unfolding db by (simp_all add: empty_db_def contains_map_of)
  have d: "contains (hash_store ?db) ''k''"
    by (simp add: db contains_map_of)
  show ?thesis
    using a b c d hdel_leaves_empty_hash [of ?db "''k''" "''f''" "''1''" 0 "''f''"]
    by simp
qed

subsection \<open>lrem\<close>

text \<open>The loops of \<^verbatim>\<open>lrem\<close> against the words of the specification: for every count but
  the least \<^verbatim>\<open>int\<close>, \<^verbatim>\<open>lrem\<close> leaves the list \<open>lrem_spec\<close> describes and returns the
  number of elements it removed.\<close>

lemma lrem_head_spec:
  "removed \<le> count \<Longrightarrow>
   lrem_head v count removed xs =
     (remove_first (nat (count - removed)) v xs,
      removed + min (count - removed) (int (count_list xs v)))"
proof (induction xs arbitrary: removed)
  case Nil
  then show ?case by (cases "nat (count - removed)") simp_all
next
  case (Cons x xs)
  show ?case
  proof (cases "removed < count")
    case False
    with Cons.prems have "count - removed = 0" by simp
    with False show ?thesis by simp
  next
    case True
    then obtain n where n: "nat (count - removed) = Suc n" "nat (count - (removed + 1)) = n"
      by (cases "nat (count - removed)") auto
    from True have le: "removed + 1 \<le> count" "removed \<le> count" by simp_all
    show ?thesis
      using True n Cons.IH [OF le(1)] Cons.IH [OF le(2)]
      by (auto simp: min_def)
  qed
qed

lemma lrem_tail_as_head:
  "lrem_tail v limit removed (length pre) (pre @ suf) =
     (let (ys, r) = lrem_head v limit removed (rev pre) in (rev ys @ suf, r))"
proof (induction pre arbitrary: removed suf rule: rev_induct)
  case Nil
  show ?case by (subst lrem_tail.simps) simp
next
  case (snoc x pre)
  show ?case
  proof (cases "removed < limit")
    case False
    then show ?thesis by (subst lrem_tail.simps) simp
  next
    case True
    show ?thesis
    proof (cases "x = v")
      case True
      have "lrem_tail v limit removed (length (pre @ [x])) ((pre @ [x]) @ suf)
            = lrem_tail v limit (removed + 1) (length pre) (pre @ suf)"
        using \<open>removed < limit\<close> True by (subst lrem_tail.simps) (simp add: nth_append)
      then show ?thesis
        using \<open>removed < limit\<close> True snoc.IH [of "removed + 1" suf] by simp
    next
      case False
      have "lrem_tail v limit removed (length (pre @ [x])) ((pre @ [x]) @ suf)
            = lrem_tail v limit removed (length pre) (pre @ (x # suf))"
        using \<open>removed < limit\<close> False by (subst lrem_tail.simps) (simp add: nth_append)
      then show ?thesis
        using \<open>removed < limit\<close> False snoc.IH [of removed "x # suf"]
        by (simp add: split_def Let_def)
    qed
  qed
qed

lemma remove_first_Nil [simp]: "remove_first n v [] = []"
  by (cases n) simp_all

lemma remove_first_Cons:
  "0 < n \<Longrightarrow> remove_first n v (x # xs) =
     (if x = v then remove_first (n - 1) v xs else x # remove_first n v xs)"
  by (cases n) simp_all

lemma length_remove_first:
  "int (length (remove_first n v xs)) = int (length xs) - min (int n) (int (count_list xs v))"
  by (induction n v xs rule: remove_first.induct) (auto simp: min_def)

lemma length_filter_neq:
  "int (length (filter (\<lambda>x. x \<noteq> v) xs)) = int (length xs) - int (count_list xs v)"
  by (induction xs) auto

lemma count_list_rev [simp]: "count_list (rev xs) v = count_list xs v"
  by (induction xs) auto

lemma lrem_refines_spec:
  assumes "map_of (list_store db) k = Some xs" and "count \<noteq> - 2147483648"
  shows "lrem db k count v =
           (db\<lparr>list_store := AList.update k (lrem_spec count v xs) (list_store db)\<rparr>,
            int (length xs) - int (length (lrem_spec count v xs)))"
    and "int (length xs) - int (length (lrem_spec count v xs)) =
           (if count = 0 then int (count_list xs v) else min \<bar>count\<bar> (int (count_list xs v)))"
proof -
  have len: "int (length xs) - int (length (lrem_spec count v xs)) =
           (if count = 0 then int (count_list xs v) else min \<bar>count\<bar> (int (count_list xs v)))"
    by (auto simp: lrem_spec_def length_filter_neq length_remove_first)
  show "int (length xs) - int (length (lrem_spec count v xs)) =
           (if count = 0 then int (count_list xs v) else min \<bar>count\<bar> (int (count_list xs v)))"
    by (rule len)
  consider "count = 0" | "count > 0" | "count < 0" by linarith
  then show "lrem db k count v =
           (db\<lparr>list_store := AList.update k (lrem_spec count v xs) (list_store db)\<rparr>,
            int (length xs) - int (length (lrem_spec count v xs)))"
  proof cases
    case 1
    then show ?thesis using assms(1) by (simp add: lrem_def lrem_spec_def)
  next
    case 2
    have "lrem_head v count 0 xs = (lrem_spec count v xs, min count (int (count_list xs v)))"
      using 2 lrem_head_spec [of 0 count v xs] by (simp add: lrem_spec_def)
    then show ?thesis
      using 2 assms(1) len by (simp add: lrem_def)
  next
    case 3
    have n: "neg_int32 count = \<bar>count\<bar>" "0 \<le> \<bar>count\<bar>"
      using 3 assms(2) by (simp_all add: neg_int32_def)
    have "lrem_tail v \<bar>count\<bar> 0 (length xs) (xs @ []) =
            (let (ys, r) = lrem_head v \<bar>count\<bar> 0 (rev xs) in (rev ys @ [], r))"
      by (rule lrem_tail_as_head)
    then have "lrem_tail v \<bar>count\<bar> 0 (length xs) xs =
            (lrem_spec count v xs, min \<bar>count\<bar> (int (count_list xs v)))"
      using 3 lrem_head_spec [of 0 "\<bar>count\<bar>" v "rev xs"] by (simp add: lrem_spec_def)
    then show ?thesis
      using 3 assms(1) len n by (simp add: lrem_def)
  qed
qed

lemma lrem_absent:
  "map_of (list_store db) k = None \<Longrightarrow> lrem db k count v = (db, 0)"
  by (simp add: lrem_def)

lemma lrem_all_again:
  "snd (lrem (fst (lrem db k 0 v)) k 0 v) = 0"
  by (simp add: lrem_def update_conv' split: option.splits)

text \<open>
  C7: \<^verbatim>\<open>lrem(k, count, v)\<close> removes up to \<open>|count|\<close> occurrences of \<open>v\<close> from the tail
  when \<open>count < 0\<close>, for every integer \<open>count\<close>, and returns the number removed. For the
  least \<^verbatim>\<open>int\<close> the code does not: \<^verbatim>\<open>-count\<close> overflows to the same negative value,
  the test \<^verbatim>\<open>removed < (-count)\<close> fails at once, and \<^verbatim>\<open>lrem\<close> removes nothing and returns
  0 on a list that holds \<open>v\<close>, where the specification removes it (and where
  \<open>count = -2147483647\<close> does remove it).
\<close>

theorem lrem_least_count_removes_nothing:
  "(let db = rpush empty_db ''k'' ''v''
    in lget db ''k'' = [''v'']
       \<and> lrem db ''k'' (- 2147483648) ''v'' = (db, 0)
       \<and> lrem_spec (- 2147483648) ''v'' (lget db ''k'') = []
       \<and> lrem db ''k'' (- 2147483647) ''v'' = (db\<lparr>list_store := [(''k'', [])]\<rparr>, 1))"
  by (simp add: rpush_def empty_db_def at_default_def lget_def lrem_def neg_int32_def
      lrem_tail.simps lrem_spec_def remove_first_Cons Let_def)

subsection \<open>load\<close>

lemma word_iff: "word w \<longleftrightarrow> (\<forall>c\<in>set w. \<not> isspace c)"
  by (simp add: word_def list_all_iff)

lemma isspace_space [simp]: "isspace CHR '' ''"
  by (simp add: isspace_def)

lemma extract_char_tag:
  "\<not> isspace c \<Longrightarrow> extract_char (c # r) = (Some c, r)"
  by (simp add: extract_char_def)

lemma extract_word_space:
  assumes "word w" and "w \<noteq> []" and "rest = [] \<or> isspace (hd rest)"
  shows "extract_word (CHR '' '' # w @ rest) = (w, rest)"
proof -
  obtain c cs where w: "w = c # cs" using assms(2) by (cases w) auto
  have ns: "\<And>x. x \<in> set w \<Longrightarrow> \<not> isspace x"
    using assms(1) by (simp add: word_iff)
  then have "\<not> isspace c" by (simp add: w)
  then have d: "dropWhile isspace (CHR '' '' # w @ rest) = w @ rest"
    by (simp add: w)
  have r: "takeWhile (\<lambda>c. \<not> isspace c) rest = []" "dropWhile (\<lambda>c. \<not> isspace c) rest = rest"
    using assms(3) by (cases rest; simp)+
  have "takeWhile (\<lambda>c. \<not> isspace c) (w @ rest) = w"
    using ns r by (simp add: takeWhile_append2)
  moreover have "dropWhile (\<lambda>c. \<not> isspace c) (w @ rest) = rest"
    using ns r by (simp add: dropWhile_append2)
  ultimately show ?thesis
    by (simp only: extract_word_def Let_def d)
qed

lemma extract_word_last:
  assumes "word w"
  shows "extract_word (CHR '' '' # w) = (w, [])"
proof (cases "w = []")
  case True
  then show ?thesis by (simp add: extract_word_def)
next
  case False
  then show ?thesis using extract_word_space [OF assms False, of "[]"] by simp
qed

lemma extract_word_Nil [simp]: "extract_word [] = ([], [])"
  by (simp add: extract_word_def)

lemma load_line_kv_store_cong:
  "kv_store db = kv_store db' \<Longrightarrow> kv_store (load_line t l db) = kv_store (load_line t l db')"
  by (simp add: load_line_def split_def Let_def)

lemma load_line_list_store_cong:
  "list_store db = list_store db' \<Longrightarrow> list_store (load_line t l db) = list_store (load_line t l db')"
  by (simp add: load_line_def split_def Let_def)

lemma load_line_hash_store_cong:
  "hash_store db = hash_store db' \<Longrightarrow> hash_store (load_line t l db) = hash_store (load_line t l db')"
  by (simp add: load_line_def split_def Let_def)

lemma load_line_expiry [simp]: "expiry_map (load_line t l db) = expiry_map db"
  by (simp add: load_line_def split_def Let_def)

lemma load_lines_expiry [simp]: "expiry_map (load_lines u i ls db) = expiry_map db"
  by (induction ls arbitrary: i db) simp_all

lemma load_lines_stores_cong:
  "kv_store db = kv_store db' \<Longrightarrow> list_store db = list_store db' \<Longrightarrow> hash_store db = hash_store db' \<Longrightarrow>
   kv_store (load_lines u i ls db) = kv_store (load_lines u i ls db')
   \<and> list_store (load_lines u i ls db) = list_store (load_lines u i ls db')
   \<and> hash_store (load_lines u i ls db) = hash_store (load_lines u i ls db')"
proof (induction ls arbitrary: i db db')
  case Nil
  then show ?case by simp
next
  case (Cons l ls)
  show ?case
    using Cons.IH [of "load_line (u i) l db" "load_line (u i) l db'" "Suc i"]
      load_line_kv_store_cong [OF Cons.prems(1)] load_line_list_store_cong [OF Cons.prems(2)]
      load_line_hash_store_cong [OF Cons.prems(3)]
    by simp
qed

lemma load_line_unrecognized: "unrecognized line \<Longrightarrow> load_line t line db = db"
  by (auto simp: unrecognized_def load_line_def split_def Let_def split: option.splits)

lemma load_lines_unrecognized:
  "list_all unrecognized ls \<Longrightarrow> load_lines u i ls db = db"
  by (induction ls arbitrary: i) (simp_all add: load_line_unrecognized)

subsection \<open>dump, then load\<close>

lemma getlines_Nil [simp]: "getlines [] = []"
  by (subst getlines.simps) simp

lemma getlines_line:
  assumes "CHR 0x0A \<notin> set l"
  shows "getlines (l @ CHR 0x0A # rest) = l # getlines rest"
proof -
  have n: "\<And>x. x \<in> set l \<Longrightarrow> x \<noteq> CHR 0x0A"
    using assms by auto
  have "takeWhile (\<lambda>c. c \<noteq> CHR 0x0A) (l @ CHR 0x0A # rest) = l"
    using n by (simp add: takeWhile_append2)
  moreover have "dropWhile (\<lambda>c. c \<noteq> CHR 0x0A) (l @ CHR 0x0A # rest) = CHR 0x0A # rest"
    using n by (simp add: dropWhile_append2)
  ultimately show ?thesis
    by (subst getlines.simps) simp
qed

lemma getlines_records:
  "(\<And>l. l \<in> set ls \<Longrightarrow> CHR 0x0A \<notin> set l) \<Longrightarrow>
   getlines (concat (map (\<lambda>line. line @ [CHR 0x0A]) ls)) = ls"
  by (induction ls) (simp_all add: getlines_line)

lemma word_no_newline: "word w \<Longrightarrow> CHR 0x0A \<notin> set w"
  by (auto simp: word_iff isspace_def)

lemma word_append [simp]: "word (a @ b) \<longleftrightarrow> word a \<and> word b"
  by (auto simp: word_iff)

lemma word_Cons [simp]: "word (c # w) \<longleftrightarrow> \<not> isspace c \<and> word w"
  by (simp add: word_iff)

lemma word_Nil [simp]: "word []"
  by (simp add: word_iff)

text \<open>Words written each after a space are read back one by one.\<close>

lemma spaced_shape:
  "concat (map (\<lambda>w. CHR '' '' # w) ws) = [] \<or> isspace (hd (concat (map (\<lambda>w. CHR '' '' # w) ws)))"
  by (cases ws) simp_all

lemma read_items_Nil [simp]: "read_items [] = []"
  by (subst read_items.simps) simp

lemma read_items_spaced:
  "(\<And>w. w \<in> set ws \<Longrightarrow> w \<noteq> [] \<and> word w) \<Longrightarrow>
   read_items (concat (map (\<lambda>w. CHR '' '' # w) ws)) = ws"
proof (induction ws)
  case Nil
  show ?case by simp
next
  case (Cons w ws)
  let ?rest = "concat (map (\<lambda>w. CHR '' '' # w) ws)"
  have w: "word w" "w \<noteq> []"
    using Cons.prems by simp_all
  have "extract_word (CHR '' '' # w @ ?rest) = (w, ?rest)"
    using w spaced_shape by (rule extract_word_space)
  then have "read_items (CHR '' '' # w @ ?rest) = w # read_items ?rest"
    using w(2) by (subst read_items.simps) simp
  then show ?case
    using Cons by simp
qed

text \<open>The pairs of a hash are read back into the same hash.\<close>

lemma update_new: "k \<notin> fst ` set al \<Longrightarrow> AList.update k v al = al @ [(k, v)]"
  by (induction al) auto

lemma insert_pair_field:
  "CHR '':'' \<notin> set f \<Longrightarrow> insert_pair (f @ CHR '':'' # v) h = AList.update f v h"
proof -
  assume "CHR '':'' \<notin> set f"
  then have n: "\<And>x. x \<in> set f \<Longrightarrow> x \<noteq> CHR '':''"
    by auto
  have "takeWhile (\<lambda>c. c \<noteq> CHR '':'') (f @ CHR '':'' # v) = f"
    using n by (simp add: takeWhile_append2)
  moreover have "dropWhile (\<lambda>c. c \<noteq> CHR '':'') (f @ CHR '':'' # v) = CHR '':'' # v"
    using n by (simp add: dropWhile_append2)
  ultimately show ?thesis
    by (simp add: insert_pair_def)
qed

lemma fold_insert_pair:
  "distinct (map fst (acc @ h)) \<Longrightarrow> (\<And>f v. (f, v) \<in> set h \<Longrightarrow> CHR '':'' \<notin> set f) \<Longrightarrow>
   fold insert_pair (map (\<lambda>fv. fst fv @ CHR '':'' # snd fv) h) acc = acc @ h"
proof (induction h arbitrary: acc)
  case Nil
  show ?case by simp
next
  case (Cons fv h)
  obtain f v where fv: "fv = (f, v)" by (cases fv)
  have c: "CHR '':'' \<notin> set f"
    using Cons.prems(2) [of f v] by (simp add: fv)
  have new: "f \<notin> fst ` set acc"
    using Cons.prems(1) by (auto simp: fv)
  have "fold insert_pair (map (\<lambda>fv. fst fv @ CHR '':'' # snd fv) h) (acc @ [(f, v)]) = (acc @ [(f, v)]) @ h"
    using Cons.prems by (intro Cons.IH) (auto simp: fv)
  then show ?case
    by (simp add: fv insert_pair_field [OF c] update_new [OF new])
qed

lemma spaced_pairs:
  "concat (map (\<lambda>fv. '' '' @ fst fv @ '':'' @ snd fv) h)
     = concat (map (\<lambda>w. CHR '' '' # w) (map (\<lambda>fv. fst fv @ CHR '':'' # snd fv) h))"
  by (induction h) simp_all

lemma spaced_items:
  "concat (map (\<lambda>item. '' '' @ item) items) = concat (map (\<lambda>w. CHR '' '' # w) items)"
  by (induction items) simp_all

lemma load_line_dump_kv:
  assumes "word k" and "k \<noteq> []" and "word v"
  shows "load_line t (dump_kv (k, v)) db = db\<lparr>kv_store := AList.update k v (kv_store db)\<rparr>"
proof -
  have "extract_char (dump_kv (k, v)) = (Some CHR ''K'', CHR '' '' # k @ CHR '' '' # v)"
    by (simp add: dump_kv_def extract_char_def isspace_def)
  moreover have "extract_word (CHR '' '' # k @ CHR '' '' # v) = (k, CHR '' '' # v)"
    using assms(1,2) by (rule extract_word_space) simp
  moreover have "extract_word (CHR '' '' # v) = (v, [])"
    using assms(3) by (rule extract_word_last)
  ultimately show ?thesis
    by (simp add: load_line_def)
qed

lemma load_line_dump_list:
  assumes "word k" and "k \<noteq> []" and "\<And>w. w \<in> set items \<Longrightarrow> w \<noteq> [] \<and> word w"
  shows "load_line t (dump_list (k, items)) db = db\<lparr>list_store := AList.update k items (list_store db)\<rparr>"
proof -
  let ?rest = "concat (map (\<lambda>w. CHR '' '' # w) items)"
  have "extract_char (dump_list (k, items)) = (Some CHR ''L'', CHR '' '' # k @ ?rest)"
    by (simp add: dump_list_def extract_char_def isspace_def spaced_items)
  moreover have "extract_word (CHR '' '' # k @ ?rest) = (k, ?rest)"
    using assms(1,2) spaced_shape by (rule extract_word_space)
  moreover have "read_items ?rest = items"
    using assms(3) by (rule read_items_spaced)
  ultimately show ?thesis
    by (simp add: load_line_def)
qed

lemma load_line_dump_hash:
  assumes "word k" and "k \<noteq> []" and "distinct (map fst h)"
    and "\<And>f v. (f, v) \<in> set h \<Longrightarrow> word f \<and> CHR '':'' \<notin> set f \<and> word v"
  shows "load_line t (dump_hash (k, h)) db = db\<lparr>hash_store := AList.update k h (hash_store db)\<rparr>"
proof -
  define ws where "ws = map (\<lambda>fv. fst fv @ CHR '':'' # snd fv) h"
  define rest where "rest = concat (map (\<lambda>w. CHR '' '' # w) ws)"
  have d: "dump_hash (k, h) = CHR ''H'' # CHR '' '' # k @ rest"
    unfolding dump_hash_def spaced_pairs rest_def ws_def by simp
  have "extract_char (dump_hash (k, h)) = (Some CHR ''H'', CHR '' '' # k @ rest)"
    unfolding d by (rule extract_char_tag) (simp add: isspace_def)
  moreover have "extract_word (CHR '' '' # k @ rest) = (k, rest)"
    unfolding rest_def using assms(1,2) spaced_shape by (rule extract_word_space)
  moreover have "read_items rest = ws"
    unfolding rest_def
  proof (rule read_items_spaced)
    fix w assume "w \<in> set ws"
    then obtain f v where "(f, v) \<in> set h" "w = f @ CHR '':'' # v"
      by (auto simp: ws_def)
    then show "w \<noteq> [] \<and> word w"
      using assms(4) [of f v] by (simp add: isspace_def)
  qed
  moreover have "fold insert_pair ws [] = [] @ h"
    unfolding ws_def using assms(3,4) by (intro fold_insert_pair) auto
  ultimately show ?thesis
    by (simp add: load_line_def)
qed

lemma load_lines_append:
  "load_lines u i (xs @ ys) db = load_lines u (i + length xs) ys (load_lines u i xs db)"
  by (induction xs arbitrary: i db) simp_all

lemma load_lines_dump_kv:
  "distinct (map fst (kv_store db @ kvs)) \<Longrightarrow>
   (\<And>k v. (k, v) \<in> set kvs \<Longrightarrow> k \<noteq> [] \<and> word k \<and> word v) \<Longrightarrow>
   load_lines u i (map dump_kv kvs) db = db\<lparr>kv_store := kv_store db @ kvs\<rparr>"
proof (induction kvs arbitrary: i db)
  case Nil
  show ?case by simp
next
  case (Cons kv kvs)
  obtain k v where kv: "kv = (k, v)" by (cases kv)
  have g: "k \<noteq> [] \<and> word k \<and> word v"
    using Cons.prems(2) [of k v] by (simp add: kv)
  have new: "k \<notin> fst ` set (kv_store db)"
    using Cons.prems(1) by (auto simp: kv)
  let ?db = "db\<lparr>kv_store := kv_store db @ [(k, v)]\<rparr>"
  have "load_line (u i) (dump_kv (k, v)) db = ?db"
    using g by (simp add: load_line_dump_kv update_new [OF new])
  moreover have "load_lines u (Suc i) (map dump_kv kvs) ?db = ?db\<lparr>kv_store := kv_store ?db @ kvs\<rparr>"
    using Cons.prems by (intro Cons.IH) (auto simp: kv)
  ultimately show ?case
    by (simp add: kv)
qed

lemma load_lines_dump_list:
  "distinct (map fst (list_store db @ ls)) \<Longrightarrow>
   (\<And>k items. (k, items) \<in> set ls \<Longrightarrow> k \<noteq> [] \<and> word k \<and> (\<forall>w\<in>set items. w \<noteq> [] \<and> word w)) \<Longrightarrow>
   load_lines u i (map dump_list ls) db = db\<lparr>list_store := list_store db @ ls\<rparr>"
proof (induction ls arbitrary: i db)
  case Nil
  show ?case by simp
next
  case (Cons kl ls)
  obtain k items where kl: "kl = (k, items)" by (cases kl)
  have g: "k \<noteq> [] \<and> word k \<and> (\<forall>w\<in>set items. w \<noteq> [] \<and> word w)"
    using Cons.prems(2) [of k items] by (simp add: kl)
  have new: "k \<notin> fst ` set (list_store db)"
    using Cons.prems(1) by (auto simp: kl)
  let ?db = "db\<lparr>list_store := list_store db @ [(k, items)]\<rparr>"
  have "load_line (u i) (dump_list (k, items)) db = ?db"
    using g by (simp add: load_line_dump_list update_new [OF new])
  moreover have "load_lines u (Suc i) (map dump_list ls) ?db = ?db\<lparr>list_store := list_store ?db @ ls\<rparr>"
    using Cons.prems by (intro Cons.IH) (auto simp: kl)
  ultimately show ?case
    by (simp add: kl)
qed

lemma load_lines_dump_hash:
  "distinct (map fst (hash_store db @ hs)) \<Longrightarrow>
   (\<And>k h. (k, h) \<in> set hs \<Longrightarrow> k \<noteq> [] \<and> word k \<and> distinct (map fst h)) \<Longrightarrow>
   (\<And>k h f v. (k, h) \<in> set hs \<Longrightarrow> (f, v) \<in> set h \<Longrightarrow> word f \<and> CHR '':'' \<notin> set f \<and> word v) \<Longrightarrow>
   load_lines u i (map dump_hash hs) db = db\<lparr>hash_store := hash_store db @ hs\<rparr>"
proof (induction hs arbitrary: i db)
  case Nil
  show ?case by simp
next
  case (Cons kh hs)
  obtain k h where kh: "kh = (k, h)" by (cases kh)
  have g: "k \<noteq> [] \<and> word k \<and> distinct (map fst h)"
    using Cons.prems(2) [of k h] by (simp add: kh)
  have p: "\<And>f v. (f, v) \<in> set h \<Longrightarrow> word f \<and> CHR '':'' \<notin> set f \<and> word v"
    using Cons.prems(3) [of k h] by (simp add: kh)
  have new: "k \<notin> fst ` set (hash_store db)"
    using Cons.prems(1) by (auto simp: kh)
  let ?db = "db\<lparr>hash_store := hash_store db @ [(k, h)]\<rparr>"
  have "load_line (u i) (dump_hash (k, h)) db = db\<lparr>hash_store := AList.update k h (hash_store db)\<rparr>"
    using g p by (intro load_line_dump_hash) auto
  then have "load_line (u i) (dump_hash (k, h)) db = ?db"
    by (simp add: update_new [OF new])
  moreover have "load_lines u (Suc i) (map dump_hash hs) ?db = ?db\<lparr>hash_store := hash_store ?db @ hs\<rparr>"
  proof (rule Cons.IH)
    show "distinct (map fst (hash_store ?db @ hs))"
      using Cons.prems(1) by (auto simp: kh)
  next
    fix k' h' assume "(k', h') \<in> set hs"
    then show "k' \<noteq> [] \<and> word k' \<and> distinct (map fst h')"
      using Cons.prems(2) [of k' h'] by simp
  next
    fix k' h' f v assume "(k', h') \<in> set hs" "(f, v) \<in> set h'"
    then show "word f \<and> CHR '':'' \<notin> set f \<and> word v"
      using Cons.prems(3) [of k' h' f v] by simp
  qed
  ultimately show ?case
    by (simp add: kh)
qed

lemma dump_kv_no_newline:
  "word k \<Longrightarrow> word v \<Longrightarrow> CHR 0x0A \<notin> set (dump_kv (k, v))"
  by (simp add: dump_kv_def word_no_newline)

lemma dump_list_no_newline:
  assumes "word k" and "\<And>w. w \<in> set items \<Longrightarrow> word w"
  shows "CHR 0x0A \<notin> set (dump_list (k, items))"
proof -
  have "\<And>w. w \<in> set items \<Longrightarrow> CHR 0x0A \<notin> set w"
    using assms(2) by (simp add: word_no_newline)
  then show ?thesis
    using assms(1) by (auto simp: dump_list_def word_no_newline)
qed

lemma dump_hash_no_newline:
  assumes "word k" and "\<And>f v. (f, v) \<in> set h \<Longrightarrow> word f \<and> word v"
  shows "CHR 0x0A \<notin> set (dump_hash (k, h))"
proof -
  have "\<And>f v. (f, v) \<in> set h \<Longrightarrow> CHR 0x0A \<notin> set f \<and> CHR 0x0A \<notin> set v"
    using assms(2) by (simp add: word_no_newline)
  then show ?thesis
    using assms(1) by (auto simp: dump_hash_def word_no_newline)
qed

lemma dump_lines_no_newline:
  assumes "storable db"
    and "l \<in> set (map dump_kv (kv_store db) @ map dump_list (list_store db) @ map dump_hash (hash_store db))"
  shows "CHR 0x0A \<notin> set l"
proof -
  consider (kv) k v where "(k, v) \<in> set (kv_store db)" "l = dump_kv (k, v)"
    | (li) k items where "(k, items) \<in> set (list_store db)" "l = dump_list (k, items)"
    | (ha) k h where "(k, h) \<in> set (hash_store db)" "l = dump_hash (k, h)"
    using assms(2) by auto
  then show ?thesis
  proof cases
    case kv
    then have "word k" "word v"
      using assms(1) by (auto simp: storable_def list_all_iff)
    then show ?thesis
      by (simp add: kv(2) dump_kv_no_newline)
  next
    case li
    then have "word k" "\<And>w. w \<in> set items \<Longrightarrow> word w"
      using assms(1) by (auto simp: storable_def list_all_iff)
    then show ?thesis
      unfolding li(2) by (rule dump_list_no_newline)
  next
    case ha
    then have "word k" "\<And>f v. (f, v) \<in> set h \<Longrightarrow> word f \<and> word v"
      using assms(1) by (fastforce simp: storable_def list_all_iff)+
    then show ?thesis
      unfolding ha(2) by (rule dump_hash_no_newline)
  qed
qed

lemma load_dump_text:
  assumes "unique_keys db" and "storable db"
  shows "load_lines u 0 (getlines (dump_text db))
           (db\<lparr>kv_store := [], list_store := [], hash_store := []\<rparr>) = db"
proof -
  let ?db0 = "db\<lparr>kv_store := [], list_store := [], hash_store := []\<rparr>"
  let ?n = "length (kv_store db)"
  let ?m = "?n + length (list_store db)"
  have lines: "getlines (dump_text db)
      = map dump_kv (kv_store db) @ map dump_list (list_store db) @ map dump_hash (hash_store db)"
    unfolding dump_text_def
    using dump_lines_no_newline [OF assms(2)] by (intro getlines_records) simp
  let ?db1 = "?db0\<lparr>kv_store := kv_store db\<rparr>"
  let ?db2 = "?db0\<lparr>kv_store := kv_store db, list_store := list_store db\<rparr>"
  have kv: "load_lines u 0 (map dump_kv (kv_store db)) ?db0 = ?db1"
  proof -
    have d: "distinct (map fst (kv_store ?db0 @ kv_store db))"
      using assms(1) by (simp add: unique_keys_def)
    have g: "\<And>k v. (k, v) \<in> set (kv_store db) \<Longrightarrow> k \<noteq> [] \<and> word k \<and> word v"
      using assms(2) by (auto simp: storable_def list_all_iff)
    show ?thesis
      using load_lines_dump_kv [of ?db0 "kv_store db" u 0, OF d g] by simp
  qed
  have li: "load_lines u ?n (map dump_list (list_store db)) ?db1 = ?db2"
  proof -
    have d: "distinct (map fst (list_store ?db1 @ list_store db))"
      using assms(1) by (simp add: unique_keys_def)
    have g: "\<And>k items. (k, items) \<in> set (list_store db) \<Longrightarrow>
               k \<noteq> [] \<and> word k \<and> (\<forall>w\<in>set items. w \<noteq> [] \<and> word w)"
      using assms(2) by (auto simp: storable_def list_all_iff)
    show ?thesis
      using load_lines_dump_list [of ?db1 "list_store db" u ?n, OF d g] by simp
  qed
  have ha: "load_lines u ?m (map dump_hash (hash_store db)) ?db2 = ?db2\<lparr>hash_store := hash_store db\<rparr>"
  proof -
    have d: "distinct (map fst (hash_store ?db2 @ hash_store db))"
      using assms(1) by (simp add: unique_keys_def)
    have g: "\<And>k h. (k, h) \<in> set (hash_store db) \<Longrightarrow> k \<noteq> [] \<and> word k \<and> distinct (map fst h)"
      using assms by (auto simp: storable_def unique_keys_def list_all_iff)
    have p: "\<And>k h f v. (k, h) \<in> set (hash_store db) \<Longrightarrow> (f, v) \<in> set h \<Longrightarrow>
               word f \<and> CHR '':'' \<notin> set f \<and> word v"
      using assms(2) by (fastforce simp: storable_def list_all_iff)
    show ?thesis
      using load_lines_dump_hash [of ?db2 "hash_store db" u ?m, OF d g p] by simp
  qed
  show ?thesis
    using kv li ha by (simp add: lines load_lines_append)
qed

text \<open>A list that holds the empty string has no space and no colon in it; \<^verbatim>\<open>dump\<close> writes
  the line \<^verbatim>\<open>L k \<close> for it, and \<^verbatim>\<open>load\<close> reads back the empty list.\<close>

theorem round_trip_loses_empty_item:
  "(let db = rpush empty_db ''k'' [];
        (fs', dumped) = dump db Map.empty True ''p'';
        (db1, flushed) = flushAll db;
        (db2, loaded) = load db1 (\<lambda>_. CHR ''x'') fs' ''p''
    in dumped \<and> loaded \<and> lget db ''k'' = [[]] \<and> lget db2 ''k'' = [])"
proof -
  let ?db = "rpush empty_db ''k'' []"
  have db: "?db = \<lparr>kv_store = [], list_store = [(''k'', [[]])], hash_store = [], expiry_map = []\<rparr>"
    by (simp add: rpush_def empty_db_def at_default_def)
  have written: "dump_text ?db = ''L k '' @ [CHR 0x0A]"
    by (simp add: db dump_text_def dump_list_def)
  have "getlines (''L k '' @ CHR 0x0A # []) = ''L k '' # getlines []"
    by (rule getlines_line) simp
  then have lines: "getlines (dump_text ?db) = [''L k '']"
    by (simp add: written)
  have items: "read_items '' '' = []"
    by (subst read_items.simps) (simp add: extract_word_def)
  have line: "load_line c ''L k '' d = d\<lparr>list_store := AList.update ''k'' [] (list_store d)\<rparr>" for c d
    by (simp add: load_line_def extract_char_def extract_word_def isspace_def items)
  show ?thesis
    unfolding Let_def
    by (simp add: dump_def flushAll_def load_def lines line) (simp add: db lget_def)
qed

text \<open>
  C3, as the code has it: for every store whose keys are non-empty, whose list items are
  non-empty, whose keys, string values, list items, hash fields and hash values hold no
  white space (space, tab, newline, vertical tab, form feed, carriage return) and whose
  hash fields hold no colon, \<^verbatim>\<open>dump\<close> to a path, \<^verbatim>\<open>flushAll\<close> and \<^verbatim>\<open>load\<close> from that path
  succeed and bring back the contents of the three type-stores: \<^verbatim>\<open>keys()\<close>, \<^verbatim>\<open>get\<close>,
  \<^verbatim>\<open>lget\<close> and \<^verbatim>\<open>hgetall\<close> answer as before the dump. The expiry map is neither written
  nor cleared.
\<close>

theorem dump_load_round_trip:
  assumes "unique_keys db" and "storable db"
  shows "(let (fs', dumped) = dump db fs True filename;
              (db1, flushed) = flushAll db;
              (db2, loaded) = load db1 uninit fs' filename
          in dumped \<and> loaded
             \<and> map_of (kv_store db2) = map_of (kv_store db)
             \<and> map_of (list_store db2) = map_of (list_store db)
             \<and> contains (hash_store db2) key = contains (hash_store db) key
             \<and> set (snd (keys db2 now)) = set (snd (keys db now))
             \<and> snd (get db2 now key v) = snd (get db now key v)
             \<and> lget db2 key = lget db key
             \<and> map_of (hgetall db2 key) = map_of (hgetall db key))"
proof -
  let ?db0 = "db\<lparr>kv_store := [], list_store := [], hash_store := []\<rparr>"
  have "load_lines uninit 0 (getlines (dump_text db)) (?db0\<lparr>kv_store := [], list_store := [], hash_store := []\<rparr>) = db"
    using load_dump_text [OF assms, of uninit] by simp
  then show ?thesis
    by (simp add: dump_def flushAll_def load_def)
qed

theorem dump_load_round_trip_witness:
  "unique_keys \<lparr>kv_store = [(''name'', ''Alice'')], list_store = [(''fruits'', [''apple'', ''kiwi''])],
       hash_store = [(''user:100'', [(''name'', ''Bob''), (''age'', ''30'')])], expiry_map = []\<rparr>
   \<and> storable \<lparr>kv_store = [(''name'', ''Alice'')], list_store = [(''fruits'', [''apple'', ''kiwi''])],
       hash_store = [(''user:100'', [(''name'', ''Bob''), (''age'', ''30'')])], expiry_map = []\<rparr>
   \<and> (let db = \<lparr>kv_store = [(''name'', ''Alice'')], list_store = [(''fruits'', [''apple'', ''kiwi''])],
           hash_store = [(''user:100'', [(''name'', ''Bob''), (''age'', ''30'')])], expiry_map = []\<rparr>;
           (fs', dumped) = dump db Map.empty True ''p'';
           (db1, flushed) = flushAll db;
           (db2, loaded) = load db1 (\<lambda>_. CHR ''x'') fs' ''p''
       in dumped \<and> loaded
          \<and> map_of (kv_store db2) = map_of (kv_store db)
          \<and> map_of (list_store db2) = map_of (list_store db)
          \<and> contains (hash_store db2) ''user:100'' = contains (hash_store db) ''user:100''
          \<and> set (snd (keys db2 0)) = set (snd (keys db 0))
          \<and> snd (get db2 0 ''user:100'' []) = snd (get db 0 ''user:100'' [])
          \<and> lget db2 ''user:100'' = lget db ''user:100''
          \<and> map_of (hgetall db2 ''user:100'') = map_of (hgetall db ''user:100''))"
proof -
  let ?db = "\<lparr>kv_store = [(''name'', ''Alice'')], list_store = [(''fruits'', [''apple'', ''kiwi''])],
       hash_store = [(''user:100'', [(''name'', ''Bob''), (''age'', ''30'')])], expiry_map = []\<rparr>"
  have a: "unique_keys ?db"
    by (simp add: unique_keys_def)
  have b: "storable ?db"
    by (simp add: storable_def isspace_def)
  show ?thesis
    using a b dump_load_round_trip [OF a b, of Map.empty "''p''" "\<lambda>_. CHR ''x''" "''user:100''" 0 "[]"]
    by (simp add: Let_def)
qed

subsection \<open>load, line by line\<close>

text \<open>The lines of a file, the words of a line, and what \<^verbatim>\<open>load\<close> does with a line in
  terms of them.\<close>

lemma getlines_rest:
  "CHR 0x0A \<notin> set rest \<Longrightarrow> getlines rest = (if rest = [] then [] else [rest])"
proof (cases "rest = []")
  case True
  then show ?thesis by simp
next
  case False
  assume "CHR 0x0A \<notin> set rest"
  then have n: "\<And>x. x \<in> set rest \<Longrightarrow> x \<noteq> CHR 0x0A"
    by auto
  have t: "takeWhile (\<lambda>c. c \<noteq> CHR 0x0A) rest = rest"
    and d: "dropWhile (\<lambda>c. c \<noteq> CHR 0x0A) rest = []"
    using n by simp_all
  show ?thesis
    using False by (subst getlines.simps) (simp add: t d)
qed

lemma getlines_file:
  "list_all (\<lambda>l. CHR 0x0A \<notin> set l) ls \<Longrightarrow> CHR 0x0A \<notin> set rest \<Longrightarrow>
   getlines (concat (map (\<lambda>l. l @ [CHR 0x0A]) ls) @ rest) = ls @ (if rest = [] then [] else [rest])"
  by (induction ls) (simp_all add: getlines_rest getlines_line)

lemma extract_word_fail: "fst (extract_word r) = [] \<Longrightarrow> snd (extract_word r) = []"
proof -
  assume a: "fst (extract_word r) = []"
  let ?s = "dropWhile isspace r"
  have t: "takeWhile (\<lambda>c. \<not> isspace c) ?s = []"
    using a by (simp add: extract_word_def Let_def)
  have e: "?s = []"
  proof (cases ?s)
    case Nil
    then show ?thesis .
  next
    case (Cons c cs)
    then have "dropWhile isspace r \<noteq> []"
      by simp
    then have "\<not> isspace (hd (dropWhile isspace r))"
      by (rule hd_dropWhile)
    then have "\<not> isspace c"
      by (simp add: Cons)
    then show ?thesis
      using t Cons by simp
  qed
  show ?thesis
    unfolding extract_word_def Let_def e by simp
qed

lemma read_items_extract:
  "read_items r = (if fst (extract_word r) = [] then []
                   else fst (extract_word r) # read_items (snd (extract_word r)))"
  by (subst read_items.simps) (simp add: split_def Let_def)

lemma extract_word_words:
  "fst (extract_word r) = word_at (read_items r) 0"
  "read_items (snd (extract_word r)) = drop 1 (read_items r)"
proof -
  show "fst (extract_word r) = word_at (read_items r) 0"
    by (subst read_items_extract) (simp add: word_at_def)
  show "read_items (snd (extract_word r)) = drop 1 (read_items r)"
  proof (cases "fst (extract_word r) = []")
    case True
    then have "read_items r = []" "snd (extract_word r) = []"
      by (simp_all add: read_items_extract [of r] extract_word_fail)
    then show ?thesis by simp
  next
    case False
    then show ?thesis
      by (subst (2) read_items_extract) simp
  qed
qed

lemma word_at_drop: "word_at (drop (Suc 0) ws) 0 = word_at ws (Suc 0)"
  by (cases ws) (simp_all add: word_at_def)

lemma load_line_words:
  "load_line t line d =
     (if line_type t line = CHR ''K'' then
        d\<lparr>kv_store := AList.update (word_at (line_words line) 0) (word_at (line_words line) 1) (kv_store d)\<rparr>
      else if line_type t line = CHR ''L'' then
        d\<lparr>list_store := AList.update (word_at (line_words line) 0) (drop 1 (line_words line)) (list_store d)\<rparr>
      else if line_type t line = CHR ''H'' then
        d\<lparr>hash_store := AList.update (word_at (line_words line) 0)
             (fold insert_pair (drop 1 (line_words line)) []) (hash_store d)\<rparr>
      else d)"
proof -
  let ?r = "snd (extract_char line)"
  have k: "fst (extract_word ?r) = word_at (line_words line) 0"
    by (simp add: line_words_def extract_word_words)
  have rest: "read_items (snd (extract_word ?r)) = drop 1 (line_words line)"
    by (simp add: line_words_def extract_word_words)
  have v: "fst (extract_word (snd (extract_word ?r))) = word_at (line_words line) 1"
    using extract_word_words(1) [of "snd (extract_word ?r)"] by (simp add: rest word_at_drop)
  show ?thesis
    by (simp add: load_line_def line_type_def split_def Let_def k rest v)
qed

lemma blank_extract: "blank line \<Longrightarrow> extract_char line = (None, [])"
  unfolding blank_def extract_char_def
  by (cases "dropWhile isspace line") (simp_all del: dropWhile_eq_Nil_conv)

lemma blank_line:
  "blank line \<Longrightarrow> line_type t line = t \<and> line_words line = []"
  by (simp add: blank_extract line_type_def line_words_def)

lemma tagged_line:
  "\<not> isspace c \<Longrightarrow> \<not> blank (c # r) \<and> line_type t (c # r) = c \<and> line_words (c # r) = read_items r"
  by (simp add: blank_def line_type_def line_words_def extract_char_def)

lemma load_line_tag_indep:
  "\<not> blank l \<Longrightarrow> load_line t l d = load_line t' l d"
  by (auto simp: blank_def load_line_def split_def Let_def)

lemma load_lines_skip:
  "list_all (\<lambda>l. \<not> blank l) ls \<Longrightarrow>
   load_lines u i ls d = load_lines u' j (filter (\<lambda>l. \<not> unrecognized l) ls) d"
proof (induction ls arbitrary: i j d)
  case Nil
  show ?case by simp
next
  case (Cons l ls)
  then have nb: "\<not> blank l" and rest: "list_all (\<lambda>l. \<not> blank l) ls"
    by simp_all
  show ?case
  proof (cases "unrecognized l")
    case True
    then show ?thesis
      using Cons.IH [OF rest, of "Suc i" "load_line (u i) l d" j]
      by (simp add: load_line_unrecognized)
  next
    case False
    then show ?thesis
      using Cons.IH [OF rest, of "Suc i" "load_line (u i) l d" "Suc j"]
        load_line_tag_indep [OF nb, of "u i" d "u' j"]
      by simp
  qed
qed

lemma load_lines_snoc:
  "load_lines u 0 (ls @ [l]) d = load_line (u (length ls)) l (load_lines u 0 ls d)"
  by (simp add: load_lines_append)

lemma load_line_tag_key:
  assumes "word key"
  shows "load_line t (CHR ''K'' # CHR '' '' # key) d = d\<lparr>kv_store := AList.update key [] (kv_store d)\<rparr>"
    and "load_line t (CHR ''L'' # CHR '' '' # key) d = d\<lparr>list_store := AList.update key [] (list_store d)\<rparr>"
    and "load_line t (CHR ''H'' # CHR '' '' # key) d = d\<lparr>hash_store := AList.update key [] (hash_store d)\<rparr>"
proof -
  have w: "extract_word (CHR '' '' # key) = (key, [])"
    using assms by (rule extract_word_last)
  have c: "extract_char (CHR ''K'' # CHR '' '' # key) = (Some CHR ''K'', CHR '' '' # key)"
    "extract_char (CHR ''L'' # CHR '' '' # key) = (Some CHR ''L'', CHR '' '' # key)"
    "extract_char (CHR ''H'' # CHR '' '' # key) = (Some CHR ''H'', CHR '' '' # key)"
    by (simp_all add: extract_char_tag isspace_def)
  show "load_line t (CHR ''K'' # CHR '' '' # key) d = d\<lparr>kv_store := AList.update key [] (kv_store d)\<rparr>"
    by (simp add: load_line_def c w)
  show "load_line t (CHR ''L'' # CHR '' '' # key) d = d\<lparr>list_store := AList.update key [] (list_store d)\<rparr>"
    by (simp add: load_line_def c w)
  show "load_line t (CHR ''H'' # CHR '' '' # key) d = d\<lparr>hash_store := AList.update key [] (hash_store d)\<rparr>"
    by (simp add: load_line_def c w)
qed

lemma load_file:
  assumes "fs filename = Some (concat (map (\<lambda>l. l @ [CHR 0x0A]) ls) @ rest)"
    and "list_all (\<lambda>l. CHR 0x0A \<notin> set l) ls" and "CHR 0x0A \<notin> set rest"
  shows "load db uninit fs filename
           = (load_lines uninit 0 (ls @ (if rest = [] then [] else [rest]))
                (db\<lparr>kv_store := [], list_store := [], hash_store := []\<rparr>), True)"
  using assms by (simp add: load_def getlines_file)

lemma load_file_last:
  assumes "fs filename = Some (concat (map (\<lambda>l. l @ [CHR 0x0A]) (ls @ [l])))"
    and "list_all (\<lambda>l. CHR 0x0A \<notin> set l) ls" and "CHR 0x0A \<notin> set l"
  shows "fst (load db uninit fs filename)
           = load_line (uninit (length ls)) l
               (load_lines uninit 0 ls (db\<lparr>kv_store := [], list_store := [], hash_store := []\<rparr>))"
proof -
  have "list_all (\<lambda>l. CHR 0x0A \<notin> set l) (ls @ [l])"
    using assms(2,3) by simp
  then show ?thesis
    using assms(1) load_file [of fs filename "ls @ [l]" "[]" db uninit]
    by (simp add: load_lines_snoc)
qed

text \<open>A file with the lines \<^verbatim>\<open>K foo\<close> and \<^verbatim>\<open>L\<close>: \<^verbatim>\<open>load\<close> binds \<open>foo\<close> to the empty string
  and the empty key to the empty list. A key read from a record that lacks words is not
  left absent.\<close>

theorem load_keeps_partial_records:
  "(let (db, ok) = load empty_db (\<lambda>_. CHR ''x'') [''p'' \<mapsto> ''K foo'' @ [CHR 0x0A] @ ''L'' @ [CHR 0x0A]] ''p''
    in ok \<and> map_of (kv_store db) ''foo'' = Some [] \<and> map_of (list_store db) [] = Some [])"
  by (simp add: load_def empty_db_def getlines.simps load_line_def extract_char_def
      extract_word_def isspace_def read_items.simps Let_def)

text \<open>
  C6, as the code has it. \<^verbatim>\<open>load(path)\<close> returns false exactly when the file cannot be
  opened, and then changes nothing. For every file it can open it returns true; the
  store is then the one that the lines of the file build, one after the other in their
  order, from the store with the three type-stores cleared (the expiry map is not
  touched). The lines are the pieces that end in a newline and what follows the last
  newline, if anything does. A line is taken by its type tag, the first character that is
  no white space, and by the words after the tag: \<open>K\<close> binds the first word to the second
  in the string store, \<open>L\<close> binds it to the list of the other words, \<open>H\<close> binds it to the
  hash of the other words split at their first colon (one without a colon is dropped); a
  word that is missing is the empty
  string, so a line with a tag only binds the empty key and a \<open>K\<close>, \<open>L\<close> or \<open>H\<close> line
  with a key only binds the key to the empty string, list or hash: the key is not left
  absent. A line with another tag is skipped: when no line of the file is blank, the
  store is the one the file without such lines gives. A blank line has no tag of its own:
  it is taken by the value the uninitialised variable \<^verbatim>\<open>type\<close> holds, with no words.
\<close>

theorem load_contract:
  "(snd (load db uninit fs filename) = False \<longleftrightarrow> fs filename = None)
   \<and> (fs filename = None \<longrightarrow> load db uninit fs filename = (db, False))
   \<and> (\<forall>ls rest.
         fs filename = Some (concat (map (\<lambda>l. l @ [CHR 0x0A]) ls) @ rest)
           \<and> list_all (\<lambda>l. CHR 0x0A \<notin> set l) ls \<and> CHR 0x0A \<notin> set rest \<longrightarrow>
         load db uninit fs filename
           = (load_lines uninit 0 (ls @ (if rest = [] then [] else [rest]))
                (db\<lparr>kv_store := [], list_store := [], hash_store := []\<rparr>), True)
         \<and> (list_all (\<lambda>l. \<not> blank l) (ls @ (if rest = [] then [] else [rest])) \<longrightarrow>
              fst (load db uninit fs filename)
                = load_lines uninit' 0
                    (filter (\<lambda>l. \<not> unrecognized l) (ls @ (if rest = [] then [] else [rest])))
                    (db\<lparr>kv_store := [], list_store := [], hash_store := []\<rparr>))
         \<and> expiry_map (fst (load db uninit fs filename)) = expiry_map db
         \<and> kv_store (fst (load db uninit fs filename)) = kv_store (fst (load empty_db uninit fs filename))
         \<and> list_store (fst (load db uninit fs filename)) = list_store (fst (load empty_db uninit fs filename))
         \<and> hash_store (fst (load db uninit fs filename)) = hash_store (fst (load empty_db uninit fs filename)))
   \<and> load_lines uninit i [] d = d
   \<and> load_lines uninit i (line # lines) d = load_lines uninit (Suc i) lines (load_line (uninit i) line d)
   \<and> load_line t line d =
       (if line_type t line = CHR ''K'' then
          d\<lparr>kv_store := AList.update (word_at (line_words line) 0) (word_at (line_words line) 1)
               (kv_store d)\<rparr>
        else if line_type t line = CHR ''L'' then
          d\<lparr>list_store := AList.update (word_at (line_words line) 0) (drop 1 (line_words line))
               (list_store d)\<rparr>
        else if line_type t line = CHR ''H'' then
          d\<lparr>hash_store := AList.update (word_at (line_words line) 0)
               (fold insert_pair (drop 1 (line_words line)) []) (hash_store d)\<rparr>
        else d)
   \<and> (unrecognized line \<longrightarrow> load_line t line d = d)
   \<and> (blank line \<longrightarrow> line_type t line = t \<and> line_words line = [])
   \<and> (\<not> isspace c \<longrightarrow>
        \<not> blank (c # r) \<and> line_type t (c # r) = c \<and> line_words (c # r) = read_items r)
   \<and> (list_all (\<lambda>w. w \<noteq> [] \<and> word w) ws \<longrightarrow>
        read_items (concat (map (\<lambda>w. CHR '' '' # w) ws)) = ws)
   \<and> (CHR '':'' \<notin> set f \<longrightarrow> insert_pair (f @ CHR '':'' # v) h = AList.update f v h)
   \<and> (CHR '':'' \<notin> set pair \<longrightarrow> insert_pair pair h = h)
   \<and> (\<forall>ls. fs filename = Some (concat (map (\<lambda>l. l @ [CHR 0x0A]) (ls @ [''K '' @ key])))
           \<and> list_all (\<lambda>l. CHR 0x0A \<notin> set l) ls \<and> word key \<longrightarrow>
         map_of (kv_store (fst (load db uninit fs filename))) key = Some [])
   \<and> (\<forall>ls. fs filename = Some (concat (map (\<lambda>l. l @ [CHR 0x0A]) (ls @ [''L '' @ key])))
           \<and> list_all (\<lambda>l. CHR 0x0A \<notin> set l) ls \<and> word key \<longrightarrow>
         map_of (list_store (fst (load db uninit fs filename))) key = Some [])
   \<and> (\<forall>ls. fs filename = Some (concat (map (\<lambda>l. l @ [CHR 0x0A]) (ls @ [''H '' @ key])))
           \<and> list_all (\<lambda>l. CHR 0x0A \<notin> set l) ls \<and> word key \<longrightarrow>
         map_of (hash_store (fst (load db uninit fs filename))) key = Some [])"
proof -
  have a: "snd (load db uninit fs filename) = False \<longleftrightarrow> fs filename = None"
    by (simp add: load_def split: option.splits)
  have b: "fs filename = None \<longrightarrow> load db uninit fs filename = (db, False)"
    by (simp add: load_def)
  have c: "load db uninit fs filename
           = (load_lines uninit 0 (ls @ (if rest = [] then [] else [rest]))
                (db\<lparr>kv_store := [], list_store := [], hash_store := []\<rparr>), True)
         \<and> (list_all (\<lambda>l. \<not> blank l) (ls @ (if rest = [] then [] else [rest])) \<longrightarrow>
              fst (load db uninit fs filename)
                = load_lines uninit' 0
                    (filter (\<lambda>l. \<not> unrecognized l) (ls @ (if rest = [] then [] else [rest])))
                    (db\<lparr>kv_store := [], list_store := [], hash_store := []\<rparr>))
         \<and> expiry_map (fst (load db uninit fs filename)) = expiry_map db
         \<and> kv_store (fst (load db uninit fs filename)) = kv_store (fst (load empty_db uninit fs filename))
         \<and> list_store (fst (load db uninit fs filename)) = list_store (fst (load empty_db uninit fs filename))
         \<and> hash_store (fst (load db uninit fs filename)) = hash_store (fst (load empty_db uninit fs filename))"
    if h: "fs filename = Some (concat (map (\<lambda>l. l @ [CHR 0x0A]) ls) @ rest)
           \<and> list_all (\<lambda>l. CHR 0x0A \<notin> set l) ls \<and> CHR 0x0A \<notin> set rest" for ls rest
  proof -
    have l: "load db uninit fs filename
           = (load_lines uninit 0 (ls @ (if rest = [] then [] else [rest]))
                (db\<lparr>kv_store := [], list_store := [], hash_store := []\<rparr>), True)"
      using h by (intro load_file) simp_all
    have l0: "load empty_db uninit fs filename
           = (load_lines uninit 0 (ls @ (if rest = [] then [] else [rest]))
                (empty_db\<lparr>kv_store := [], list_store := [], hash_store := []\<rparr>), True)"
      using h by (intro load_file) simp_all
    have same: "kv_store (fst (load db uninit fs filename)) = kv_store (fst (load empty_db uninit fs filename))
         \<and> list_store (fst (load db uninit fs filename)) = list_store (fst (load empty_db uninit fs filename))
         \<and> hash_store (fst (load db uninit fs filename)) = hash_store (fst (load empty_db uninit fs filename))"
      unfolding l l0 fst_conv by (rule load_lines_stores_cong) simp_all
    have skip: "list_all (\<lambda>l. \<not> blank l) (ls @ (if rest = [] then [] else [rest])) \<longrightarrow>
              fst (load db uninit fs filename)
                = load_lines uninit' 0
                    (filter (\<lambda>l. \<not> unrecognized l) (ls @ (if rest = [] then [] else [rest])))
                    (db\<lparr>kv_store := [], list_store := [], hash_store := []\<rparr>)"
      unfolding l using load_lines_skip [of "ls @ (if rest = [] then [] else [rest])" uninit 0 _ uninit' 0]
      by simp
    have ex: "expiry_map (fst (load db uninit fs filename)) = expiry_map db"
      by (simp add: l)
    show ?thesis
      using l same skip ex by blast
  qed
  have e: "load_line t line d =
       (if line_type t line = CHR ''K'' then
          d\<lparr>kv_store := AList.update (word_at (line_words line) 0) (word_at (line_words line) 1)
               (kv_store d)\<rparr>
        else if line_type t line = CHR ''L'' then
          d\<lparr>list_store := AList.update (word_at (line_words line) 0) (drop 1 (line_words line))
               (list_store d)\<rparr>
        else if line_type t line = CHR ''H'' then
          d\<lparr>hash_store := AList.update (word_at (line_words line) 0)
               (fold insert_pair (drop 1 (line_words line)) []) (hash_store d)\<rparr>
        else d)"
    by (rule load_line_words)
  have un: "unrecognized line \<longrightarrow> load_line t line d = d"
    by (simp add: load_line_unrecognized)
  have g: "blank line \<longrightarrow> line_type t line = t \<and> line_words line = []"
    by (simp add: blank_line)
  have tg: "\<not> isspace c \<longrightarrow>
        \<not> blank (c # r) \<and> line_type t (c # r) = c \<and> line_words (c # r) = read_items r"
    by (simp add: tagged_line)
  have i: "list_all (\<lambda>w. w \<noteq> [] \<and> word w) ws \<longrightarrow>
        read_items (concat (map (\<lambda>w. CHR '' '' # w) ws)) = ws"
    by (simp add: list_all_iff read_items_spaced)
  have nl: "CHR 0x0A \<notin> set (tag @ key)" if "word key" "tag = ''K '' \<or> tag = ''L '' \<or> tag = ''H ''" for tag
    using that word_no_newline [of key] by auto
  have k: "map_of (kv_store (fst (load db uninit fs filename))) key = Some []"
    if p: "fs filename = Some (concat (map (\<lambda>l. l @ [CHR 0x0A]) (ls @ [''K '' @ key])))
           \<and> list_all (\<lambda>l. CHR 0x0A \<notin> set l) ls \<and> word key" for ls
    using p load_file_last [of fs filename ls "''K '' @ key" db uninit] nl [of "''K ''"]
    by (simp add: load_line_tag_key update_conv')
  have l: "map_of (list_store (fst (load db uninit fs filename))) key = Some []"
    if p: "fs filename = Some (concat (map (\<lambda>l. l @ [CHR 0x0A]) (ls @ [''L '' @ key])))
           \<and> list_all (\<lambda>l. CHR 0x0A \<notin> set l) ls \<and> word key" for ls
    using p load_file_last [of fs filename ls "''L '' @ key" db uninit] nl [of "''L ''"]
    by (simp add: load_line_tag_key update_conv')
  have m: "map_of (hash_store (fst (load db uninit fs filename))) key = Some []"
    if p: "fs filename = Some (concat (map (\<lambda>l. l @ [CHR 0x0A]) (ls @ [''H '' @ key])))
           \<and> list_all (\<lambda>l. CHR 0x0A \<notin> set l) ls \<and> word key" for ls
    using p load_file_last [of fs filename ls "''H '' @ key" db uninit] nl [of "''H ''"]
    by (simp add: load_line_tag_key update_conv')
  have z: "load_lines uninit i [] d = d"
    and s: "load_lines uninit i (line # lines) d
              = load_lines uninit (Suc i) lines (load_line (uninit i) line d)"
    by simp_all
  have ip: "CHR '':'' \<notin> set f \<longrightarrow> insert_pair (f @ CHR '':'' # v) h = AList.update f v h"
    "CHR '':'' \<notin> set pair \<longrightarrow> insert_pair pair h = h"
    using insert_pair_field [of f v h] by (simp, simp add: insert_pair_def)
  show ?thesis
    using a b c e un g tg i k l m z s ip by blast
qed

theorem load_contract_witness:
  "(let fs = [''p'' \<mapsto> concat (map (\<lambda>l. l @ [CHR 0x0A]) [''X junk'', ''K a 1'', ''K foo'']) @ [],
              ''l'' \<mapsto> concat (map (\<lambda>l. l @ [CHR 0x0A]) ([] @ [''L '' @ ''foo''])),
              ''h'' \<mapsto> concat (map (\<lambda>l. l @ [CHR 0x0A]) ([] @ [''H '' @ ''foo'']))];
        db = set_db empty_db ''old'' ''1'';
        u = (\<lambda>_. CHR ''K'');
        cleared = db\<lparr>kv_store := [], list_store := [], hash_store := []\<rparr>
    in fs ''q'' = None \<and> load db u fs ''q'' = (db, False)
       \<and> list_all (\<lambda>l. CHR 0x0A \<notin> set l) [''X junk'', ''K a 1'', ''K foo'']
       \<and> list_all (\<lambda>l. \<not> blank l) [''X junk'', ''K a 1'', ''K foo'']
       \<and> unrecognized ''X junk'' \<and> word ''foo''
       \<and> load db u fs ''p'' = (load_lines u 0 [''X junk'', ''K a 1'', ''K foo''] cleared, True)
       \<and> fst (load db u fs ''p'') = load_lines (\<lambda>_. CHR ''x'') 0 [''K a 1'', ''K foo''] cleared
       \<and> kv_store (fst (load db u fs ''p'')) = [(''a'', ''1''), (''foo'', [])]
       \<and> map_of (kv_store (fst (load db u fs ''p''))) ''foo'' = Some []
       \<and> map_of (list_store (fst (load db u fs ''l''))) ''foo'' = Some []
       \<and> map_of (hash_store (fst (load db u fs ''h''))) ''foo'' = Some []
       \<and> blank '' '' \<and> line_type (CHR ''K'') '' '' = CHR ''K'' \<and> line_words '' '' = []
       \<and> load_line (CHR ''K'') '' '' db = db\<lparr>kv_store := AList.update [] [] (kv_store db)\<rparr>
       \<and> load_line (CHR ''K'') ''X junk'' db = db
       \<and> \<not> isspace (CHR ''K'') \<and> line_type (CHR ''x'') ''K a 1'' = CHR ''K''
       \<and> list_all (\<lambda>w. w \<noteq> [] \<and> word w) [''a'', ''1''] \<and> line_words ''K a 1'' = [''a'', ''1'']
       \<and> load_line (CHR ''x'') ''K a 1'' db = db\<lparr>kv_store := AList.update ''a'' ''1'' (kv_store db)\<rparr>
       \<and> CHR '':'' \<notin> set ''name'' \<and> insert_pair ''name:Bob'' [] = [(''name'', ''Bob'')]
       \<and> CHR '':'' \<notin> set ''junk'' \<and> insert_pair ''junk'' [(''name'', ''Bob'')] = [(''name'', ''Bob'')])"
proof -
  define ls where "ls = [''X junk'', ''K a 1'', ''K foo'']"
  define fs :: filesystem where
    "fs = [''p'' \<mapsto> concat (map (\<lambda>l. l @ [CHR 0x0A]) ls) @ [],
           ''l'' \<mapsto> concat (map (\<lambda>l. l @ [CHR 0x0A]) ([] @ [''L '' @ ''foo''])),
           ''h'' \<mapsto> concat (map (\<lambda>l. l @ [CHR 0x0A]) ([] @ [''H '' @ ''foo'']))]"
  define db where "db = set_db empty_db ''old'' ''1''"
  define u :: "nat \<Rightarrow> char" where "u = (\<lambda>_. CHR ''K'')"
  define cleared where "cleared = db\<lparr>kv_store := [], list_store := [], hash_store := []\<rparr>"
  have q: "fs ''q'' = None"
    by (simp add: fs_def)
  have p: "fs ''p'' = Some (concat (map (\<lambda>l. l @ [CHR 0x0A]) ls) @ [])"
    "fs ''l'' = Some (concat (map (\<lambda>l. l @ [CHR 0x0A]) ([] @ [''L '' @ ''foo''])))"
    "fs ''h'' = Some (concat (map (\<lambda>l. l @ [CHR 0x0A]) ([] @ [''H '' @ ''foo''])))"
    by (simp_all add: fs_def)
  have pk: "fs ''p'' = Some (concat (map (\<lambda>l. l @ [CHR 0x0A]) ([''X junk'', ''K a 1''] @ [''K '' @ ''foo''])))"
    by (simp add: fs_def ls_def)
  have n: "list_all (\<lambda>l. CHR 0x0A \<notin> set l) ls" "CHR 0x0A \<notin> set ([] :: string)"
    "list_all (\<lambda>l. CHR 0x0A \<notin> set l) [''X junk'', ''K a 1'']"
    "list_all (\<lambda>l. CHR 0x0A \<notin> set l) ([] :: string list)"
    by (simp_all add: ls_def)
  have nb: "list_all (\<lambda>l. \<not> blank l) ls"
    by (simp add: ls_def blank_def extract_char_def isspace_def)
  have un: "unrecognized ''X junk''" "\<not> unrecognized ''K a 1''" "\<not> unrecognized ''K foo''"
    by (simp_all add: unrecognized_def extract_char_def isspace_def)
  have w: "word ''foo''"
    by (simp add: word_def isspace_def)
  have b: "blank '' ''"
    by (simp add: blank_def extract_char_def)
  note tq = load_contract [where db = db and uninit = u and fs = fs and filename = "''q''"
      and uninit' = "\<lambda>_. CHR ''x''" and line = "''X junk''" and t = "CHR ''K''" and d = db
      and key = "''foo''"]
  note tp = load_contract [where db = db and uninit = u and fs = fs and filename = "''p''"
      and uninit' = "\<lambda>_. CHR ''x''" and line = "'' ''" and t = "CHR ''K''" and d = db
      and key = "''foo''"]
  note tl = load_contract [where db = db and uninit = u and fs = fs and filename = "''l''"
      and uninit' = "\<lambda>_. CHR ''x''" and line = "'' ''" and t = "CHR ''K''" and d = db
      and key = "''foo''"]
  note th = load_contract [where db = db and uninit = u and fs = fs and filename = "''h''"
      and uninit' = "\<lambda>_. CHR ''x''" and line = "'' ''" and t = "CHR ''K''" and d = db
      and key = "''foo''"]
  have r1: "load db u fs ''q'' = (db, False)"
    using tq q by blast
  note c = tp [THEN conjunct2, THEN conjunct2, THEN conjunct1, rule_format, of ls "[]"]
  have c2: "load db u fs ''p'' = (load_lines u 0 (ls @ (if [] = ([] :: string) then [] else [[]])) cleared, True)
      \<and> (list_all (\<lambda>l. \<not> blank l) (ls @ (if [] = ([] :: string) then [] else [[]])) \<longrightarrow>
           fst (load db u fs ''p'')
             = load_lines (\<lambda>_. CHR ''x'') 0
                 (filter (\<lambda>l. \<not> unrecognized l) (ls @ (if [] = ([] :: string) then [] else [[]]))) cleared)"
    unfolding cleared_def using c p(1) n(1,2) by blast
  have nb': "list_all (\<lambda>l. \<not> blank l) (ls @ (if [] = ([] :: string) then [] else [[]]))"
    using nb by simp
  have r2: "load db u fs ''p'' = (load_lines u 0 ls cleared, True)"
    using c2 [THEN conjunct1] by simp
  have r3: "fst (load db u fs ''p'')
      = load_lines (\<lambda>_. CHR ''x'') 0 (filter (\<lambda>l. \<not> unrecognized l) ls) cleared"
    using c2 [THEN conjunct2, THEN mp, OF nb'] by simp
  have r4: "map_of (kv_store (fst (load db u fs ''p''))) ''foo'' = Some []"
    using tp pk n(3) w by blast
  have r5: "map_of (list_store (fst (load db u fs ''l''))) ''foo'' = Some []"
    using tl p(2) n(4) w by blast
  have r6: "map_of (hash_store (fst (load db u fs ''h''))) ''foo'' = Some []"
    using th p(3) n(4) w by blast
  have r7: "line_type (CHR ''K'') '' '' = CHR ''K'' \<and> line_words '' '' = []"
    using tp b by blast
  have r8: "load_line (CHR ''K'') '' '' db = db\<lparr>kv_store := AList.update [] [] (kv_store db)\<rparr>"
    using tp r7 by (simp add: word_at_def)
  have r9: "load_line (CHR ''K'') ''X junk'' db = db"
    using tq un(1) by blast
  note tk = load_contract [where db = db and uninit = u and fs = fs and filename = "''q''"
      and line = "''K a 1''" and t = "CHR ''x''" and d = db and c = "CHR ''K''" and r = "'' a 1''"
      and ws = "[''a'', ''1'']" and f = "''name''" and v = "''Bob''" and h = "[]"
      and pair = "''junk''"]
  note tj = load_contract [where db = db and uninit = u and fs = fs and filename = "''q''"
      and pair = "''junk''" and h = "[(''name'', ''Bob'')]"]
  have ns: "\<not> isspace (CHR ''K'')"
    by (simp add: isspace_def)
  have ws: "list_all (\<lambda>w. w \<noteq> [] \<and> word w) [''a'', ''1'']"
    by (simp add: word_def isspace_def)
  have nc: "CHR '':'' \<notin> set ''name''" "CHR '':'' \<notin> set ''junk''"
    by simp_all
  have tag: "\<not> blank (CHR ''K'' # '' a 1'') \<and> line_type (CHR ''x'') (CHR ''K'' # '' a 1'') = CHR ''K''
      \<and> line_words (CHR ''K'' # '' a 1'') = read_items '' a 1''"
    using tk ns by blast
  have r10: "line_type (CHR ''x'') ''K a 1'' = CHR ''K''"
    using tag by simp
  have ri: "read_items (concat (map (\<lambda>w. CHR '' '' # w) [''a'', ''1''])) = [''a'', ''1'']"
    using tk ws by blast
  have r11: "line_words ''K a 1'' = [''a'', ''1'']"
    using tag ri by simp
  have eq: "load_line (CHR ''x'') ''K a 1'' db =
       (if line_type (CHR ''x'') ''K a 1'' = CHR ''K'' then
          db\<lparr>kv_store := AList.update (word_at (line_words ''K a 1'') 0) (word_at (line_words ''K a 1'') 1)
               (kv_store db)\<rparr>
        else if line_type (CHR ''x'') ''K a 1'' = CHR ''L'' then
          db\<lparr>list_store := AList.update (word_at (line_words ''K a 1'') 0) (drop 1 (line_words ''K a 1''))
               (list_store db)\<rparr>
        else if line_type (CHR ''x'') ''K a 1'' = CHR ''H'' then
          db\<lparr>hash_store := AList.update (word_at (line_words ''K a 1'') 0)
               (fold insert_pair (drop 1 (line_words ''K a 1'')) []) (hash_store db)\<rparr>
        else db)"
    using tk by blast
  have r12: "load_line (CHR ''x'') ''K a 1'' db = db\<lparr>kv_store := AList.update ''a'' ''1'' (kv_store db)\<rparr>"
    unfolding eq r10 r11 by (simp add: word_at_def)
  have "insert_pair (''name'' @ CHR '':'' # ''Bob'') [] = AList.update ''name'' ''Bob'' []"
    using tk nc(1) by blast
  then have r13: "insert_pair ''name:Bob'' [] = [(''name'', ''Bob'')]"
    by simp
  have r14: "insert_pair ''junk'' [(''name'', ''Bob'')] = [(''name'', ''Bob'')]"
    using tj nc(2) by blast
  have f: "filter (\<lambda>l. \<not> unrecognized l) ls = [''K a 1'', ''K foo'']"
    by (simp add: ls_def un)
  have ev: "kv_store (load_lines (\<lambda>_. CHR ''x'') 0 [''K a 1'', ''K foo''] cleared) = [(''a'', ''1''), (''foo'', [])]"
    by (simp add: cleared_def load_line_def extract_char_def extract_word_def isspace_def)
  have r3': "fst (load db u fs ''p'') = load_lines (\<lambda>_. CHR ''x'') 0 [''K a 1'', ''K foo''] cleared"
    using r3 unfolding f .
  have kvp: "kv_store (fst (load db u fs ''p'')) = [(''a'', ''1''), (''foo'', [])]"
    unfolding r3' by (rule ev)
  have "fs ''q'' = None \<and> load db u fs ''q'' = (db, False)
       \<and> list_all (\<lambda>l. CHR 0x0A \<notin> set l) ls
       \<and> list_all (\<lambda>l. \<not> blank l) ls
       \<and> unrecognized ''X junk'' \<and> word ''foo''
       \<and> load db u fs ''p'' = (load_lines u 0 ls cleared, True)
       \<and> fst (load db u fs ''p'') = load_lines (\<lambda>_. CHR ''x'') 0 [''K a 1'', ''K foo''] cleared
       \<and> kv_store (fst (load db u fs ''p'')) = [(''a'', ''1''), (''foo'', [])]
       \<and> map_of (kv_store (fst (load db u fs ''p''))) ''foo'' = Some []
       \<and> map_of (list_store (fst (load db u fs ''l''))) ''foo'' = Some []
       \<and> map_of (hash_store (fst (load db u fs ''h''))) ''foo'' = Some []
       \<and> blank '' '' \<and> line_type (CHR ''K'') '' '' = CHR ''K'' \<and> line_words '' '' = []
       \<and> load_line (CHR ''K'') '' '' db = db\<lparr>kv_store := AList.update [] [] (kv_store db)\<rparr>
       \<and> load_line (CHR ''K'') ''X junk'' db = db
       \<and> \<not> isspace (CHR ''K'') \<and> line_type (CHR ''x'') ''K a 1'' = CHR ''K''
       \<and> list_all (\<lambda>w. w \<noteq> [] \<and> word w) [''a'', ''1''] \<and> line_words ''K a 1'' = [''a'', ''1'']
       \<and> load_line (CHR ''x'') ''K a 1'' db = db\<lparr>kv_store := AList.update ''a'' ''1'' (kv_store db)\<rparr>
       \<and> CHR '':'' \<notin> set ''name'' \<and> insert_pair ''name:Bob'' [] = [(''name'', ''Bob'')]
       \<and> CHR '':'' \<notin> set ''junk'' \<and> insert_pair ''junk'' [(''name'', ''Bob'')] = [(''name'', ''Bob'')]"
    using q r1 n(1) nb un(1) w r2 r3' kvp r4 r5 r6 b r7 r8 r9 ns r10 ws r11 r12 nc(1) r13 nc(2) r14
    by (intro conjI; blast)
  then show ?thesis
    unfolding Let_def fs_def db_def u_def cleared_def ls_def .
qed

subsection \<open>Type exclusivity\<close>

lemma type_exclusive_iff:
  "type_exclusive db \<longleftrightarrow>
     (\<forall>k. \<not> (contains (kv_store db) k \<and> contains (list_store db) k)
        \<and> \<not> (contains (kv_store db) k \<and> contains (hash_store db) k)
        \<and> \<not> (contains (list_store db) k \<and> contains (hash_store db) k))"
  by (auto simp: type_exclusive_def contains_iff)

lemma contains_update [simp]: "contains (AList.update k v m) k' \<longleftrightarrow> k' = k \<or> contains m k'"
  by (simp add: contains_map_of update_conv')

lemma contains_delete [simp]: "contains (AList.delete k m) k' \<longleftrightarrow> k' \<noteq> k \<and> contains m k'"
  by (simp add: contains_map_of delete_conv')

lemma contains_Nil [simp]: "\<not> contains [] k"
  by (simp add: contains_map_of)

lemma contains_move_key:
  "contains (move_key oldKey newKey m) k \<longleftrightarrow>
     (if contains m oldKey then k \<noteq> oldKey \<and> (k = newKey \<or> contains m k) else contains m k)"
  by (auto simp: move_key_def contains_map_of delete_conv' update_conv' split: option.splits)

lemma contains_update_present:
  "map_of m k = Some x \<Longrightarrow> contains (AList.update k v m) k' \<longleftrightarrow> contains m k'"
  by (auto simp: contains_map_of update_conv')

lemma keys_update_present:
  "map_of m k = Some x \<Longrightarrow> fst ` set (AList.update k y m) = fst ` set m"
  by (auto simp: dom_update dest: map_of_SomeD intro: rev_image_eqI)

lemma list_update_exclusive:
  "type_exclusive db \<Longrightarrow> map_of (list_store db) k = Some x \<Longrightarrow>
   type_exclusive (db\<lparr>list_store := AList.update k y (list_store db)\<rparr>)"
  by (simp add: type_exclusive_def keys_update_present)

lemma hash_update_exclusive:
  "type_exclusive db \<Longrightarrow> map_of (hash_store db) k = Some x \<Longrightarrow>
   type_exclusive (db\<lparr>hash_store := AList.update k y (hash_store db)\<rparr>)"
  by (simp add: type_exclusive_def keys_update_present)

lemma purge_exclusive: "type_exclusive db \<Longrightarrow> type_exclusive (purgeExpired db now)"
  by (simp add: type_exclusive_iff purge_contains)

lemma rename_exclusive:
  assumes "type_exclusive db" and "same_type_write (Rename now oldKey newKey) db"
  shows "type_exclusive (fst (rename db now oldKey newKey))"
proof -
  have e: "type_exclusive (purgeExpired db now)"
    using assms(1) by (rule purge_exclusive)
  show ?thesis
    using e assms(2)
    by (simp add: type_exclusive_iff rename_def Let_def contains_move_key) metis
qed

lemma hset_contains:
  "contains (hash_store (fst (hset db k f v))) k' \<longleftrightarrow> k' = k \<or> contains (hash_store db) k'"
  "kv_store (fst (hset db k f v)) = kv_store db"
  "list_store (fst (hset db k f v)) = list_store db"
  by (simp_all add: hset_def)

lemma hmset_contains:
  "contains (hash_store (fst (hmset db k fvs))) k' \<longleftrightarrow> (fvs \<noteq> [] \<and> k' = k) \<or> contains (hash_store db) k'"
  "kv_store (fst (hmset db k fvs)) = kv_store db"
  "list_store (fst (hmset db k fvs)) = list_store db"
proof -
  have "(contains (hash_store (fold (\<lambda>(f, v) d. fst (hset d k f v)) fvs db)) k'
          \<longleftrightarrow> (fvs \<noteq> [] \<and> k' = k) \<or> contains (hash_store db) k')
        \<and> kv_store (fold (\<lambda>(f, v) d. fst (hset d k f v)) fvs db) = kv_store db
        \<and> list_store (fold (\<lambda>(f, v) d. fst (hset d k f v)) fvs db) = list_store db"
    by (induction fvs arbitrary: db) (auto simp: hset_contains split_def)
  then show "contains (hash_store (fst (hmset db k fvs))) k' \<longleftrightarrow> (fvs \<noteq> [] \<and> k' = k) \<or> contains (hash_store db) k'"
    "kv_store (fst (hmset db k fvs)) = kv_store db"
    "list_store (fst (hmset db k fvs)) = list_store db"
    by (simp_all add: hmset_def)
qed

lemma load_line_contains:
  "contains (kv_store (load_line t l db)) k \<longleftrightarrow>
     (line_type t l = CHR ''K'' \<and> k = line_key l) \<or> contains (kv_store db) k"
  "contains (list_store (load_line t l db)) k \<longleftrightarrow>
     (line_type t l = CHR ''L'' \<and> k = line_key l) \<or> contains (list_store db) k"
  "contains (hash_store (load_line t l db)) k \<longleftrightarrow>
     (line_type t l = CHR ''H'' \<and> k = line_key l) \<or> contains (hash_store db) k"
  by (auto simp: load_line_def line_type_def line_key_def split_def Let_def)

lemma load_lines_contains:
  "contains (kv_store (load_lines u i ls db)) k \<longleftrightarrow>
     k \<in> set (loaded_keys (CHR ''K'') u i ls) \<or> contains (kv_store db) k"
  "contains (list_store (load_lines u i ls db)) k \<longleftrightarrow>
     k \<in> set (loaded_keys (CHR ''L'') u i ls) \<or> contains (list_store db) k"
  "contains (hash_store (load_lines u i ls db)) k \<longleftrightarrow>
     k \<in> set (loaded_keys (CHR ''H'') u i ls) \<or> contains (hash_store db) k"
  by (induction ls arbitrary: i db; auto simp: load_line_contains)+

lemma load_exclusive:
  assumes "type_exclusive db" and "same_type_write (Load u opened) db"
  shows "type_exclusive (fst (load db u (\<lambda>_. opened) p))"
proof (cases opened)
  case None
  then show ?thesis using assms(1) by (simp add: load_def)
next
  case (Some content)
  then show ?thesis
    using assms(2)
    by (auto simp: load_def type_exclusive_iff load_lines_contains Let_def)
qed

lemma apply_op_exclusive:
  assumes "type_exclusive db" and "same_type_write op db"
  shows "type_exclusive (apply_op op db)"
proof (cases op)
  case FlushAll
  then show ?thesis by (simp add: flushAll_def type_exclusive_iff)
next
  case (Set k v)
  then show ?thesis using assms by (auto simp: set_db_def type_exclusive_iff)
next
  case (Get now k)
  then show ?thesis using purge_exclusive [OF assms(1), of now]
    by (simp add: get_def Let_def split: option.splits)
next
  case (Keys now)
  then show ?thesis using purge_exclusive [OF assms(1), of now] by (simp add: keys_def Let_def)
next
  case (Type now k)
  then show ?thesis using purge_exclusive [OF assms(1), of now] by (simp add: type_def Let_def)
next
  case (Del now k)
  then show ?thesis using purge_exclusive [OF assms(1), of now]
    by (simp add: del_def Let_def type_exclusive_iff)
next
  case (Expire now now' k secs)
  then show ?thesis using purge_exclusive [OF assms(1), of now]
    by (simp add: expire_def Let_def type_exclusive_iff)
next
  case (PurgeExpired now)
  then show ?thesis using purge_exclusive [OF assms(1), of now] by simp
next
  case (Rename now oldKey newKey)
  then show ?thesis using rename_exclusive assms by simp
next
  case (Lpush k v)
  then show ?thesis using assms by (auto simp: lpush_def type_exclusive_iff)
next
  case (Rpush k v)
  then show ?thesis using assms by (auto simp: rpush_def type_exclusive_iff)
next
  case (Lpop k)
  then show ?thesis using assms(1)
    by (auto simp: lpop_def list_update_exclusive split: option.splits list.splits)
next
  case (Rpop k)
  then show ?thesis using assms(1)
    by (auto simp: rpop_def list_update_exclusive split: option.splits list.splits)
next
  case (Lrem k count v)
  then show ?thesis using assms(1)
    by (auto simp: lrem_def list_update_exclusive split_def Let_def
        split: option.splits)
next
  case (Lset k index v)
  then show ?thesis using assms(1)
    by (auto simp: lset_def list_update_exclusive split: option.splits)
next
  case (Hset k f v)
  then show ?thesis using assms by (auto simp: type_exclusive_iff hset_contains)
next
  case (Hdel k f)
  then show ?thesis using assms(1)
    by (auto simp: hdel_def hash_update_exclusive split: option.splits)
next
  case (Hmset k fvs)
  then show ?thesis using assms by (auto simp: type_exclusive_iff hmset_contains)
next
  case (Load u opened)
  then show ?thesis using load_exclusive assms by simp
qed (use assms(1) in simp_all)

lemma run_exclusive:
  "type_exclusive db \<Longrightarrow> same_type_writes ops db \<Longrightarrow> type_exclusive (run (take n ops) db)"
proof (induction ops arbitrary: db n)
  case Nil
  then show ?case by simp
next
  case (Cons op ops)
  show ?case
  proof (cases n)
    case 0
    then show ?thesis using Cons.prems(1) by simp
  next
    case (Suc m)
    have "type_exclusive (apply_op op db)"
      using Cons.prems by (simp add: apply_op_exclusive)
    then show ?thesis
      using Cons.prems(2) Suc by (simp add: Cons.IH)
  qed
qed

text \<open>\<^verbatim>\<open>rpush("k","a")\<close> then \<^verbatim>\<open>set("k","v")\<close> from the empty store: \<open>k\<close> is in the list
  store and in the string store.\<close>

theorem set_on_list_key_breaks_exclusivity:
  "(let db = run [Rpush ''k'' ''a'', Set ''k'' ''v''] empty_db
    in contains (kv_store db) ''k'' \<and> contains (list_store db) ''k'' \<and> \<not> type_exclusive db)"
  by (simp add: rpush_def set_db_def empty_db_def at_default_def type_exclusive_def Let_def
      contains_map_of)

text \<open>A file with the records \<^verbatim>\<open>K a 1\<close> and \<^verbatim>\<open>L b x\<close>, each followed by a blank line, gives
  no key under two type tags. When \<^verbatim>\<open>type\<close> still holds the tag of the line before, each
  blank line is taken as a record of that tag with the empty key, and the empty key is in
  the string store and in the list store.\<close>

lemma load_blank_lines_share_empty_key:
  "(let (db, ok) = load empty_db (\<lambda>i. if i = 1 then CHR ''K'' else CHR ''L'')
                     (\<lambda>_. Some (''K a 1'' @ [CHR 0x0A, CHR 0x0A] @ ''L b x'' @ [CHR 0x0A, CHR 0x0A])) []
    in ok \<and> contains (kv_store db) [] \<and> contains (list_store db) [] \<and> \<not> type_exclusive db)"
  by (simp add: load_def getlines.simps empty_db_def load_line_def extract_char_def
      extract_word_def isspace_def read_items.simps contains_map_of type_exclusive_def)

text \<open>
  C1, as the code has it: no operation looks into the store of another type, so type
  exclusivity holds along a sequence of public operations from the empty store when
  every write in it is of the same type as the key it writes: no \<^verbatim>\<open>set\<close> on a key held
  as list or hash, no \<^verbatim>\<open>lpush\<close> or \<^verbatim>\<open>rpush\<close> on a key held as string or hash, no
  \<^verbatim>\<open>hset\<close> or \<^verbatim>\<open>hmset\<close> of a field on a key held as string or list, no \<^verbatim>\<open>rename\<close> of a
  key that one store holds after the purge onto a key that another store holds then, and
  no \<^verbatim>\<open>load\<close> that reads one key under two type tags, where a blank line counts as a
  record with the empty key under the tag that the uninitialised variable \<^verbatim>\<open>type\<close> holds
  for it (in practice the tag of the line before). Then after every prefix of the
  sequence no key is in two of the three type-stores.
\<close>

theorem exclusivity_of_same_type_writes:
  "same_type_writes ops empty_db \<Longrightarrow> type_exclusive (run (take n ops) empty_db)"
  by (rule run_exclusive) (simp add: type_exclusive_def empty_db_def)

theorem exclusivity_of_same_type_writes_witness:
  "same_type_writes
     [Rpush ''l'' ''a'', Set ''s'' ''v'', Hset ''h'' ''f'' ''x'', Rename 0 ''s'' ''t'',
      Load (\<lambda>_. CHR ''x'') (Some (''K a 1'' @ [CHR 0x0A] @ ''L b x y'' @ [CHR 0x0A]))] empty_db
   \<and> type_exclusive (run (take 4
        [Rpush ''l'' ''a'', Set ''s'' ''v'', Hset ''h'' ''f'' ''x'', Rename 0 ''s'' ''t'',
         Load (\<lambda>_. CHR ''x'') (Some (''K a 1'' @ [CHR 0x0A] @ ''L b x y'' @ [CHR 0x0A]))]) empty_db)
   \<and> type_exclusive (run (take 5
        [Rpush ''l'' ''a'', Set ''s'' ''v'', Hset ''h'' ''f'' ''x'', Rename 0 ''s'' ''t'',
         Load (\<lambda>_. CHR ''x'') (Some (''K a 1'' @ [CHR 0x0A] @ ''L b x y'' @ [CHR 0x0A]))]) empty_db)"
proof -
  let ?ops = "[Rpush ''l'' ''a'', Set ''s'' ''v'', Hset ''h'' ''f'' ''x'', Rename 0 ''s'' ''t'',
      Load (\<lambda>_. CHR ''x'') (Some (''K a 1'' @ [CHR 0x0A] @ ''L b x y'' @ [CHR 0x0A]))]"
  have a: "same_type_writes ?ops empty_db"
    by (simp add: rpush_def set_db_def hset_def rename_def empty_db_def at_default_def
        purgeExpired_def contains_def move_key_def getlines.simps line_type_def line_key_def
        extract_char_def extract_word_def isspace_def Let_def)
  show ?thesis
    using a exclusivity_of_same_type_writes [OF a, of 4] exclusivity_of_same_type_writes [OF a, of 5]
    by blast
qed

end
